theory Spec2Isabelle
  imports Main
begin

section \<open>The section tree and its rendering\<close>

text \<open>
  The editor of \<^verbatim>\<open>ui-render.js\<close> is one class, \<^verbatim>\<open>LatexEditor\<close>. Its fields and the part
  of the page it reads and writes are modelled as one record, each method as a function
  from the record to the record. JavaScript strings are modelled as \<^typ>\<open>string\<close>, a
  character standing for a code unit below 256; where the code compares with a code
  unit beyond (the pattern of the title cleaning), the code units are taken as numbers.

  A section node is what the external parser \<^verbatim>\<open>parseLatex\<close> returns: the renderer reads
  its \<^verbatim>\<open>level\<close>, \<^verbatim>\<open>title\<close>, \<^verbatim>\<open>content\<close> and \<^verbatim>\<open>children\<close>.
\<close>

datatype node = Node (level: int) (title: string) (content: string) (children: "node list")

text \<open>
  What \<^verbatim>\<open>renderNode\<close> builds for one node: the \<^verbatim>\<open>data-level\<close> of the block, the text of
  the number span, the text of the title span, the \<^verbatim>\<open>innerHTML\<close> the content region starts
  with, its \<^verbatim>\<open>aria-label\<close>, and the blocks of the nested container.
\<close>

datatype block = Block (dataLevel: int) (numberSpan: string) (titleSpan: string)
  (innerHTML: string) (ariaLabel: string) (nested: "block list")

subsection \<open>Template literals: a number as decimal digits\<close>

definition digit_char :: "nat \<Rightarrow> char" where
  "digit_char d = ''0123456789'' ! d"

function string_of_nat :: "nat \<Rightarrow> string" where
  "string_of_nat n =
     (if n < 10 then [digit_char n] else string_of_nat (n div 10) @ [digit_char (n mod 10)])"
  by pat_completeness auto
termination
  by (relation "measure id") auto

declare string_of_nat.simps [simp del]

subsection \<open>Title cleaning\<close>

text \<open>
  The title span shows \<^verbatim>\<open>node.title.replace(/\?a-zA-Z]+\{([^}]+)\}/g, '$1')\<close>, where
  \<^verbatim>\<open>?\<close> stands for the character U+E001 of the source. A JavaScript string is a
  sequence of 16-bit code units and the pattern, which has no \<^verbatim>\<open>u\<close> flag, is matched
  code unit by code unit: the backslash and U+E001 are an identity escape (the code
  unit 0xE001), the unmatched \<^verbatim>\<open>]\<close> is a literal character. The pattern is the code unit
  0xE001, the six characters \<^verbatim>\<open>a-zA-Z\<close>, one or more \<^verbatim>\<open>]\<close>, an opening brace, one or more
  code units other than a closing brace (the group), and a closing brace. Both
  quantifiers are greedy and each is followed by a character it cannot itself match, so
  backtracking never finds a match that the longest run misses: the match at a position
  is decided by \<open>dropWhile\<close> and \<open>takeWhile\<close>.

  \<open>units\<close> gives the code units of a string of the model, whose characters are the code
  units below 256.
\<close>

definition units :: "string \<Rightarrow> nat list" where
  "units s = map of_char s"

fun strip_prefix :: "nat list \<Rightarrow> nat list \<Rightarrow> nat list option" where
  "strip_prefix [] s = Some s"
| "strip_prefix (p # ps) [] = None"
| "strip_prefix (p # ps) (c # cs) = (if p = c then strip_prefix ps cs else None)"

definition match_at :: "nat list \<Rightarrow> (nat list \<times> nat list) option" where
  "match_at s =
     (case strip_prefix (0xE001 # units ''a-zA-Z'') s of
        None \<Rightarrow> None
      | Some r1 \<Rightarrow>
          (let r2 = dropWhile (\<lambda>c. c = of_char CHR '']'') r1 in
           if length r2 = length r1 then None
           else (case r2 of
                   [] \<Rightarrow> None
                 | c # r3 \<Rightarrow>
                     if c \<noteq> of_char CHR ''{'' then None
                     else (let arg = takeWhile (\<lambda>c. c \<noteq> of_char CHR ''}'') r3;
                               r4 = dropWhile (\<lambda>c. c \<noteq> of_char CHR ''}'') r3
                           in if arg = [] then None
                              else (case r4 of [] \<Rightarrow> None | _ # rest \<Rightarrow> Some (arg, rest))))))"

lemma strip_prefix_length: "strip_prefix p s = Some r \<Longrightarrow> length s = length p + length r"
  by (induction p s rule: strip_prefix.induct) (auto split: if_splits)

lemma match_at_shorter: "match_at s = Some (arg, rest) \<Longrightarrow> length rest < length s"
proof -
  assume m: "match_at s = Some (arg, rest)"
  then obtain r1 where r1: "strip_prefix (0xE001 # units ''a-zA-Z'') s = Some r1"
    by (auto simp: match_at_def split: option.splits)
  from m r1 obtain c r3 where r2: "dropWhile (\<lambda>c. c = of_char CHR '']'') r1 = c # r3"
    by (auto simp: match_at_def Let_def split: if_splits list.splits)
  from m r1 r2 obtain d where r4: "dropWhile (\<lambda>c. c \<noteq> of_char CHR ''}'') r3 = d # rest"
    by (auto simp: match_at_def Let_def split: if_splits list.splits)
  have "length rest < length r3"
    using length_dropWhile_le [of "\<lambda>c. c \<noteq> of_char CHR ''}''" r3] r4 by simp
  moreover have "length r3 < length r1"
    using length_dropWhile_le [of "\<lambda>c. c = of_char CHR '']''" r1] r2 by simp
  moreover have "length r1 \<le> length s"
    using strip_prefix_length [OF r1] by simp
  ultimately show ?thesis by simp
qed

text \<open>
  \<^verbatim>\<open>replace\<close> with a global pattern scans from the left: where the pattern matches, the
  match is replaced by its group and the scan goes on behind the match; elsewhere the
  code unit is kept.
\<close>

function replace_wrappers :: "nat list \<Rightarrow> nat list" where
  "replace_wrappers [] = []"
| "replace_wrappers (c # cs) =
     (case match_at (c # cs) of
        Some (arg, rest) \<Rightarrow> arg @ replace_wrappers rest
      | None \<Rightarrow> c # replace_wrappers cs)"
  by pat_completeness auto
termination
  by (relation "measure length") (auto dest: match_at_shorter)

text \<open>
  The text of the title span, for a title of the model: the replacement is made on its
  code units. It only ever keeps or drops code units of the title, so the result is
  again a string of the model.
\<close>

definition clean_title :: "string \<Rightarrow> string" where
  "clean_title t = map char_of (replace_wrappers (units t))"

text \<open>
  Every match begins with the code unit 0xE001, so a sequence without it is left as it
  is; no string of the model contains it.
\<close>

lemma match_at_marker: "match_at s = Some m \<Longrightarrow> 0xE001 \<in> set s"
proof -
  assume "match_at s = Some m"
  then obtain r1 where "strip_prefix (0xE001 # units ''a-zA-Z'') s = Some r1"
    by (auto simp: match_at_def split: option.splits)
  then show ?thesis by (cases s) (auto split: if_splits)
qed

lemma replace_wrappers_no_marker: "0xE001 \<notin> set us \<Longrightarrow> replace_wrappers us = us"
proof (induction us)
  case Nil
  show ?case by simp
next
  case (Cons c cs)
  have "match_at (c # cs) = None"
  proof (cases "match_at (c # cs)")
    case None
    then show ?thesis .
  next
    case (Some m)
    from match_at_marker [OF this] Cons.prems show ?thesis by simp
  qed
  with Cons show ?case by simp
qed

lemma units_no_marker: "0xE001 \<notin> set (units t)"
proof
  assume "0xE001 \<in> set (units t)"
  then obtain c :: char where "of_char c = (0xE001 :: nat)"
    by (auto simp: units_def)
  with nat_of_char_less_256 [of c] show False by simp
qed

lemma clean_title_id: "clean_title t = t"
  by (simp add: clean_title_def replace_wrappers_no_marker [OF units_no_marker])
     (simp add: units_def comp_def)

subsection \<open>renderNode and the two numbering loops\<close>

text \<open>
  \<^verbatim>\<open>renderNode(node, number)\<close> and the \<^verbatim>\<open>forEach\<close> over \<^verbatim>\<open>node.children\<close> inside it, which
  calls \<^verbatim>\<open>renderNode(child, `${number}.${index + 1}`)\<close>; the index of the loop is the
  last argument of \<open>renderChildren\<close>.
\<close>

fun renderNode :: "node \<Rightarrow> string \<Rightarrow> block"
  and renderChildren :: "node list \<Rightarrow> string \<Rightarrow> nat \<Rightarrow> block list" where
  "renderNode (Node lv ttl cnt chs) number =
     Block lv (if lv > 0 then number @ '' '' else '''') (clean_title ttl) cnt
       (ttl @ '' content'') (renderChildren chs number 0)"
| "renderChildren [] number index = []"
| "renderChildren (child # rest) number index =
     renderNode child (number @ ''.'' @ string_of_nat (index + 1))
       # renderChildren rest number (index + 1)"

text \<open>
  The loop of \<^verbatim>\<open>render\<close> over the top-level nodes:
  \<^verbatim>\<open>renderNode(node, `${index + 1}`)\<close>.
\<close>

fun renderTop :: "node list \<Rightarrow> nat \<Rightarrow> block list" where
  "renderTop [] index = []"
| "renderTop (n # rest) index =
     renderNode n (string_of_nat (index + 1)) # renderTop rest (index + 1)"

text \<open>
  \<^verbatim>\<open>document.querySelectorAll('.section-content')\<close> lists the content regions in
  document order: a block's own region comes before the regions of its nested blocks.
\<close>

fun contents_of :: "block \<Rightarrow> string list" where
  "contents_of (Block lv num ttl html lbl nst) = html # concat (map contents_of nst)"

subsection \<open>Paths into the tree\<close>

text \<open>
  A node of the forest, or a block of the rendered forest, is named by its path: the
  index of a top-level node, then the index of a child, and so on, counted from 0 as
  the loops count. \<open>dotted\<close> is the number the path spells: every index plus one, in
  decimal, with dots between.
\<close>

fun node_at :: "node list \<Rightarrow> nat list \<Rightarrow> node option" where
  "node_at ns [] = None"
| "node_at ns (i # path) =
     (if i < length ns
      then (if path = [] then Some (ns ! i) else node_at (children (ns ! i)) path)
      else None)"

fun block_at :: "block list \<Rightarrow> nat list \<Rightarrow> block option" where
  "block_at bs [] = None"
| "block_at bs (i # path) =
     (if i < length bs
      then (if path = [] then Some (bs ! i) else block_at (nested (bs ! i)) path)
      else None)"

fun dotted :: "nat list \<Rightarrow> string" where
  "dotted [] = []"
| "dotted (i # path) = string_of_nat (i + 1) @ (if path = [] then [] else ''.'' @ dotted path)"

definition example_forest :: "node list" where
  "example_forest =
     [Node 1 ''A'' ''a'' [], Node 1 ''B'' ''b'' [],
      Node 0 ''C'' ''c'' [Node 1 ''D'' ''d'' [], Node 1 ''E'' ''e'' []]]"

section \<open>The editor state\<close>

text \<open>
  The fields of \<^verbatim>\<open>LatexEditor\<close> (\<open>history\<close>, \<open>historyIndex\<close>, \<open>rendering\<close>,
  \<open>debounceTimer\<close>, \<open>nodes\<close>) and the state of the page the methods read and write:
  what the container shows, the \<^verbatim>\<open>innerHTML\<close> of every \<^verbatim>\<open>.section-content\<close> element in
  document order (\<open>regions\<close>), the \<^verbatim>\<open>disabled\<close> flags of the two buttons, the text of
  the status message, and the browser's timeouts that will call \<^verbatim>\<open>pushHistory\<close> (an
  identifier and the time from which the timeout may fire), with the next free
  identifier and the current time in milliseconds.

  An element's \<^verbatim>\<open>innerHTML\<close> is modelled as the string last assigned to it or typed into
  it. The loading overlay, the timeout that hides the status message, the collapse
  toggle of a header and \<^verbatim>\<open>save\<close> touch none of these fields and are left out.
\<close>

datatype view = Welcome | NoSections | Blocks "block list"

record editor =
  history :: "string list list"
  historyIndex :: int
  rendering :: bool
  debounceTimer :: "nat option"
  nodes :: "node list option"
  container :: view
  regions :: "string list"
  undoDisabled :: bool
  redoDisabled :: bool
  statusMessage :: "string option"
  timers :: "(nat \<times> nat) list"
  nextTimer :: nat
  clock :: nat

text \<open>
  \<^verbatim>\<open>xs[i]\<close> on a JavaScript array is \<^verbatim>\<open>undefined\<close> outside the array;
  \<^verbatim>\<open>xs.slice(0, end)\<close> counts a negative \<^verbatim>\<open>end\<close> from the end of the array and clamps
  it to the array.
\<close>

definition js_index :: "'a list \<Rightarrow> int \<Rightarrow> 'a option" where
  "js_index xs i = (if 0 \<le> i \<and> i < int (length xs) then Some (xs ! nat i) else None)"

definition js_slice0 :: "'a list \<Rightarrow> int \<Rightarrow> 'a list" where
  "js_slice0 xs e =
     take (nat (if e < 0 then max (int (length xs) + e) 0 else min e (int (length xs)))) xs"

definition showStatus :: "string \<Rightarrow> editor \<Rightarrow> editor" where
  "showStatus message s = s\<lparr>statusMessage := Some message\<rparr>"

definition updateButtonStates :: "editor \<Rightarrow> editor" where
  "updateButtonStates s =
     s\<lparr>undoDisabled := (historyIndex s \<le> 0),
       redoDisabled := (historyIndex s \<ge> int (length (history s)) - 1)\<rparr>"

text \<open>
  The constructor, with \<^verbatim>\<open>init\<close>: empty history, cursor -1, edit mode, no timer, and
  the page as it is served (no section rendered yet).
\<close>

definition constructor :: editor where
  "constructor =
     updateButtonStates
       \<lparr>history = [], historyIndex = -1, rendering = False, debounceTimer = None,
        nodes = None, container = Welcome, regions = [], undoDisabled = False,
        redoDisabled = False, statusMessage = None, timers = [], nextTimer = 0, clock = 0\<rparr>"

subsection \<open>render\<close>

text \<open>
  \<^verbatim>\<open>render\<close> empties the container. Without nodes it shows the "No Sections Found"
  screen and returns before \<^verbatim>\<open>updateButtonStates\<close>; otherwise it appends one block per
  top-level node.
\<close>

definition render :: "editor \<Rightarrow> editor" where
  "render s =
     (case nodes s of
        None \<Rightarrow> s\<lparr>container := NoSections, regions := []\<rparr>
      | Some ns \<Rightarrow>
          if ns = [] then s\<lparr>container := NoSections, regions := []\<rparr>
          else updateButtonStates
                 (s\<lparr>container := Blocks (renderTop ns 0),
                    regions := concat (map contents_of (renderTop ns 0))\<rparr>))"

subsection \<open>The history: pushHistory, restoreHistory, undo, redo\<close>

text \<open>
  \<^verbatim>\<open>pushHistory\<close> compares the \<^verbatim>\<open>JSON.stringify\<close> of the snapshot and of the entry at
  the cursor. On arrays of strings \<^verbatim>\<open>JSON.stringify\<close> is injective, and of \<^verbatim>\<open>undefined\<close>
  it is \<^verbatim>\<open>undefined\<close>, which is no string: the comparison is equality with an entry
  that exists.
\<close>

definition pushHistory :: "editor \<Rightarrow> editor" where
  "pushHistory s =
     (let snapshot = regions s in
      if historyIndex s \<ge> 0 \<and> js_index (history s) (historyIndex s) = Some snapshot then s
      else updateButtonStates
             (s\<lparr>history := js_slice0 (history s) (historyIndex s + 1) @ [snapshot],
                historyIndex := historyIndex s + 1\<rparr>))"

text \<open>
  \<^verbatim>\<open>restoreHistory\<close> writes \<^verbatim>\<open>snapshot[i] || ''\<close> into the i-th region. When the cursor is
  outside the history the snapshot is \<^verbatim>\<open>undefined\<close> and reading \<^verbatim>\<open>snapshot[0]\<close> for the
  first region throws a TypeError; with no region nothing is read.
\<close>

datatype error = TypeError

fun or_empty :: "string option \<Rightarrow> string" where
  "or_empty None = []"
| "or_empty (Some x) = x"

definition restored :: "string list \<Rightarrow> nat \<Rightarrow> string list" where
  "restored snapshot n = map (\<lambda>i. or_empty (js_index snapshot (int i))) [0..<n]"

definition restoreHistory :: "editor \<Rightarrow> error + editor" where
  "restoreHistory s =
     (case js_index (history s) (historyIndex s) of
        None \<Rightarrow> if regions s = [] then Inr (updateButtonStates s) else Inl TypeError
      | Some snapshot \<Rightarrow>
          Inr (updateButtonStates (s\<lparr>regions := restored snapshot (length (regions s))\<rparr>)))"

definition undo :: "editor \<Rightarrow> error + editor" where
  "undo s =
     (if historyIndex s > 0 then
        (case restoreHistory (s\<lparr>historyIndex := historyIndex s - 1\<rparr>) of
           Inl e \<Rightarrow> Inl e
         | Inr s' \<Rightarrow> Inr (showStatus ''Undo successful'' s'))
      else Inr s)"

definition redo :: "editor \<Rightarrow> error + editor" where
  "redo s =
     (if historyIndex s < int (length (history s)) - 1 then
        (case restoreHistory (s\<lparr>historyIndex := historyIndex s + 1\<rparr>) of
           Inl e \<Rightarrow> Inl e
         | Inr s' \<Rightarrow> Inr (showStatus ''Redo successful'' s'))
      else Inr s)"

text \<open>The invariant of the history log: the cursor is -1 exactly when the log is empty,
  and inside the log otherwise.\<close>

definition hist_inv :: "editor \<Rightarrow> bool" where
  "hist_inv s =
     (((historyIndex s = -1) = (history s = [])) \<and>
      (history s = [] \<or> (0 \<le> historyIndex s \<and> historyIndex s \<le> int (length (history s)) - 1)))"

subsection \<open>The debounce timer of the input listener\<close>

text \<open>
  Every content region gets the same listener:
  \<^verbatim>\<open>clearTimeout(this.debounceTimer); this.debounceTimer = setTimeout(() => this.pushHistory(), 500)\<close>.
  \<^verbatim>\<open>setTimeout\<close> registers a timeout under a fresh identifier; it may fire once the
  delay has passed, not earlier. \<^verbatim>\<open>clearTimeout\<close> removes the timeout of that
  identifier if it is still pending, and does nothing otherwise.
\<close>

definition clearTimeout :: "nat option \<Rightarrow> editor \<Rightarrow> editor" where
  "clearTimeout tid s =
     (case tid of
        None \<Rightarrow> s
      | Some i \<Rightarrow> s\<lparr>timers := filter (\<lambda>t. fst t \<noteq> i) (timers s)\<rparr>)"

definition setTimeout :: "nat \<Rightarrow> editor \<Rightarrow> editor" where
  "setTimeout delay s =
     s\<lparr>debounceTimer := Some (nextTimer s),
       timers := timers s @ [(nextTimer s, clock s + delay)],
       nextTimer := nextTimer s + 1\<rparr>"

text \<open>
  The user types in the i-th content region, which then holds \<open>txt\<close>, and the listener
  runs. There is no listener to run where there is no such region.
\<close>

definition input :: "nat \<Rightarrow> string \<Rightarrow> editor \<Rightarrow> editor" where
  "input i txt s =
     (if i < length (regions s) then
        setTimeout 500 (clearTimeout (debounceTimer s) (s\<lparr>regions := (regions s)[i := txt]\<rparr>))
      else s)"

text \<open>Time passes; a pending timeout whose time has come fires and calls
  \<^verbatim>\<open>pushHistory\<close>. \<open>None\<close>: no such timeout is pending, or it is not due yet.\<close>

definition elapse :: "nat \<Rightarrow> editor \<Rightarrow> editor" where
  "elapse d s = s\<lparr>clock := clock s + d\<rparr>"

definition fire :: "nat \<Rightarrow> editor \<Rightarrow> editor option" where
  "fire tid s =
     (case map_of (timers s) tid of
        None \<Rightarrow> None
      | Some due \<Rightarrow>
          if due \<le> clock s
          then Some (pushHistory (s\<lparr>timers := filter (\<lambda>t. fst t \<noteq> tid) (timers s)\<rparr>))
          else None)"

subsection \<open>toggleRender\<close>

definition toggleRender :: "editor \<Rightarrow> editor" where
  "toggleRender s =
     (let s' = s\<lparr>rendering := \<not> rendering s\<rparr> in
      showStatus (if rendering s' then ''Math rendering enabled'' else ''Edit mode enabled'') s')"

text \<open>
  \<^verbatim>\<open>toggleRender\<close> and \<^verbatim>\<open>restoreHistory\<close> call MathJax, which typesets or clears the
  regions some time later. What it writes into them is not of this file: any content of
  the same regions can result, and no listener runs.
\<close>

definition typeset :: "string list \<Rightarrow> editor \<Rightarrow> editor" where
  "typeset rs s = (if length rs = length (regions s) then s\<lparr>regions := rs\<rparr> else s)"

subsection \<open>loadFile\<close>

text \<open>
  A file has a declared type, a name and a text. The global \<^verbatim>\<open>parseLatex\<close> is not of
  this file: it is a parameter, absent (\<open>None\<close>) or a function that returns nodes or
  throws. \<^verbatim>\<open>loadFile\<close> is modelled from the moment the text has been read.
\<close>

record tex_file =
  ftype :: string
  fname :: string
  ftext :: string

datatype parse_result = Throws | Returns "node list"

type_synonym parser = "(string \<Rightarrow> parse_result) option"

fun js_includes :: "string \<Rightarrow> string \<Rightarrow> bool" where
  "js_includes [] sub = (sub = [])"
| "js_includes (c # cs) sub = (take (length sub) (c # cs) = sub \<or> js_includes cs sub)"

definition endsWith :: "string \<Rightarrow> string \<Rightarrow> bool" where
  "endsWith s suf = (length suf \<le> length s \<and> drop (length s - length suf) s = suf)"

definition loadFile :: "parser \<Rightarrow> tex_file \<Rightarrow> editor \<Rightarrow> editor" where
  "loadFile parseLatex f s =
     (if \<not> js_includes (ftype f) ''text/'' \<and> \<not> endsWith (fname f) ''.tex''
      then showStatus ''Please upload a valid LaTeX (.tex) file'' s
      else if length (ftext f) > 1000000 then showStatus ''File too large (max 1MB)'' s
      else (case (case parseLatex of
                    None \<Rightarrow> Returns []
                  | Some parse \<Rightarrow> parse (ftext f)) of
              Throws \<Rightarrow>
                showStatus ''Error loading file. Please check console for details.'' s
            | Returns ns \<Rightarrow>
                showStatus ''File loaded successfully''
                  (pushHistory (render (s\<lparr>nodes := Some ns\<rparr>)))))"

subsection \<open>The states the editor can be in\<close>

text \<open>
  Everything that can happen to an editor after its construction: a file is loaded, the
  user types in a region, time passes, a pending timeout fires, undo, redo, the render
  toggle, or MathJax rewrites the regions.
\<close>

inductive reachable :: "parser \<Rightarrow> editor \<Rightarrow> bool" for p :: parser where
  r_init: "reachable p constructor"
| r_load: "reachable p s \<Longrightarrow> reachable p (loadFile p f s)"
| r_input: "reachable p s \<Longrightarrow> reachable p (input i txt s)"
| r_elapse: "reachable p s \<Longrightarrow> reachable p (elapse d s)"
| r_fire: "reachable p s \<Longrightarrow> fire tid s = Some s' \<Longrightarrow> reachable p s'"
| r_undo: "reachable p s \<Longrightarrow> undo s = Inr s' \<Longrightarrow> reachable p s'"
| r_redo: "reachable p s \<Longrightarrow> redo s = Inr s' \<Longrightarrow> reachable p s'"
| r_toggle: "reachable p s \<Longrightarrow> reachable p (toggleRender s)"
| r_typeset: "reachable p s \<Longrightarrow> reachable p (typeset rs s)"

text \<open>At most one timeout is pending, and it is the one the field names.\<close>

definition timer_inv :: "editor \<Rightarrow> bool" where
  "timer_inv s =
     (case timers s of
        [] \<Rightarrow> True
      | t # ts \<Rightarrow> ts = [] \<and> debounceTimer s = Some (fst t))"

subsection \<open>Edits, as the history sees them\<close>

text \<open>
  An edit that reaches the history: the user types in a region, nothing happens for
  500 ms, and the timeout the listener has set fires. \<open>edits\<close> is a sequence of them,
  \<open>undos\<close> is \<^verbatim>\<open>undo\<close> called k times. An edit is distinct when the region exists and the
  content after it differs from the entry at the cursor, so that its push is no no-op;
  \<open>distinct_edits\<close> says so of every edit of a sequence, in the state it is made in.
  \<open>typed_twice\<close>: the user types in region i, d ms pass, the user types in region j.
\<close>

definition edit :: "nat \<Rightarrow> string \<Rightarrow> editor \<Rightarrow> editor" where
  "edit i v s =
     (let s1 = elapse 500 (input i v s) in
      case debounceTimer s1 of
        None \<Rightarrow> s1
      | Some t \<Rightarrow> (case fire t s1 of None \<Rightarrow> s1 | Some s2 \<Rightarrow> s2))"

fun edits :: "(nat \<times> string) list \<Rightarrow> editor \<Rightarrow> editor" where
  "edits [] s = s"
| "edits ((i, v) # es) s = edits es (edit i v s)"

fun distinct_edits :: "(nat \<times> string) list \<Rightarrow> editor \<Rightarrow> bool" where
  "distinct_edits [] s = True"
| "distinct_edits ((i, v) # es) s =
     (i < length (regions s)
      \<and> js_index (history s) (historyIndex s) \<noteq> Some ((regions s)[i := v])
      \<and> distinct_edits es (edit i v s))"

fun undos :: "nat \<Rightarrow> editor \<Rightarrow> error + editor" where
  "undos 0 s = Inr s"
| "undos (Suc k) s = (case undo s of Inl e \<Rightarrow> Inl e | Inr s' \<Rightarrow> undos k s')"

abbreviation typed_twice :: "nat \<Rightarrow> string \<Rightarrow> nat \<Rightarrow> nat \<Rightarrow> string \<Rightarrow> editor \<Rightarrow> editor" where
  "typed_twice i a d j b s \<equiv> input j b (elapse d (input i a s))"

section \<open>Invariants of the reachable states\<close>

text \<open>
  Every operation keeps the history invariant, so every state the editor can be in has
  it; in such a state \<^verbatim>\<open>restoreHistory\<close> finds its snapshot and throws nothing.
\<close>

lemma pushHistory_inv: "hist_inv s \<Longrightarrow> hist_inv (pushHistory s)"
  by (auto simp: hist_inv_def pushHistory_def Let_def updateButtonStates_def js_slice0_def min_def)

lemma restoreHistory_in_range:
  "0 \<le> historyIndex s \<Longrightarrow> historyIndex s < int (length (history s)) \<Longrightarrow>
   restoreHistory s = Inr (updateButtonStates
      (s\<lparr>regions := restored (history s ! nat (historyIndex s)) (length (regions s))\<rparr>))"
  by (simp add: restoreHistory_def js_index_def)

lemma undo_step:
  "hist_inv s \<Longrightarrow> 0 < historyIndex s \<Longrightarrow>
   undo s = Inr (showStatus ''Undo successful'' (updateButtonStates
      (s\<lparr>historyIndex := historyIndex s - 1,
         regions := restored (history s ! nat (historyIndex s - 1)) (length (regions s))\<rparr>)))"
proof -
  assume h: "hist_inv s" and pos: "0 < historyIndex s"
  let ?s = "s\<lparr>historyIndex := historyIndex s - 1\<rparr>"
  from h pos have "historyIndex s < int (length (history s))"
    by (auto simp: hist_inv_def)
  with pos have "0 \<le> historyIndex ?s" "historyIndex ?s < int (length (history ?s))"
    by simp_all
  from restoreHistory_in_range [OF this] pos show ?thesis
    by (simp add: undo_def)
qed

lemma redo_step:
  "hist_inv s \<Longrightarrow> historyIndex s < int (length (history s)) - 1 \<Longrightarrow>
   redo s = Inr (showStatus ''Redo successful'' (updateButtonStates
      (s\<lparr>historyIndex := historyIndex s + 1,
         regions := restored (history s ! nat (historyIndex s + 1)) (length (regions s))\<rparr>)))"
proof -
  assume h: "hist_inv s" and lt: "historyIndex s < int (length (history s)) - 1"
  let ?s = "s\<lparr>historyIndex := historyIndex s + 1\<rparr>"
  from h lt have "-1 \<le> historyIndex s"
    by (auto simp: hist_inv_def)
  with lt have "0 \<le> historyIndex ?s" "historyIndex ?s < int (length (history ?s))"
    by simp_all
  from restoreHistory_in_range [OF this] lt show ?thesis
    by (simp add: redo_def)
qed

lemma undo_inv: "hist_inv s \<Longrightarrow> \<exists>s'. undo s = Inr s' \<and> hist_inv s'"
  by (cases "0 < historyIndex s")
     (auto simp: undo_step, auto simp: undo_def hist_inv_def showStatus_def updateButtonStates_def)

lemma redo_inv: "hist_inv s \<Longrightarrow> \<exists>s'. redo s = Inr s' \<and> hist_inv s'"
  by (cases "historyIndex s < int (length (history s)) - 1")
     (auto simp: redo_step, auto simp: redo_def hist_inv_def showStatus_def updateButtonStates_def)

lemma render_history: "history (render s) = history s \<and> historyIndex (render s) = historyIndex s"
  by (auto simp: render_def updateButtonStates_def split: option.splits)

lemma render_inv: "hist_inv s \<Longrightarrow> hist_inv (render s)"
  by (simp add: hist_inv_def render_history)

lemma loadFile_inv: "hist_inv s \<Longrightarrow> hist_inv (loadFile p f s)"
proof -
  assume h: "hist_inv s"
  have a: "\<And>m. hist_inv (showStatus m s)" using h by (simp add: hist_inv_def showStatus_def)
  have b: "\<And>ns m. hist_inv (showStatus m (pushHistory (render (s\<lparr>nodes := Some ns\<rparr>))))"
  proof -
    fix ns m
    have "hist_inv (s\<lparr>nodes := Some ns\<rparr>)" using h by (simp add: hist_inv_def)
    then have "hist_inv (pushHistory (render (s\<lparr>nodes := Some ns\<rparr>)))"
      by (intro pushHistory_inv render_inv)
    then show "hist_inv (showStatus m (pushHistory (render (s\<lparr>nodes := Some ns\<rparr>))))"
      by (simp add: hist_inv_def showStatus_def)
  qed
  show ?thesis
    unfolding loadFile_def using a b by (simp split: option.splits parse_result.splits)
qed

lemma input_inv: "hist_inv s \<Longrightarrow> hist_inv (input i txt s)"
  by (auto simp: hist_inv_def input_def setTimeout_def clearTimeout_def split: option.splits)

lemma fire_inv: "hist_inv s \<Longrightarrow> fire tid s = Some s' \<Longrightarrow> hist_inv s'"
proof -
  assume h: "hist_inv s" and f: "fire tid s = Some s'"
  have "hist_inv (s\<lparr>timers := filter (\<lambda>t. fst t \<noteq> tid) (timers s)\<rparr>)"
    using h by (simp add: hist_inv_def)
  then have "hist_inv (pushHistory (s\<lparr>timers := filter (\<lambda>t. fst t \<noteq> tid) (timers s)\<rparr>))"
    by (rule pushHistory_inv)
  with f show ?thesis by (auto simp: fire_def split: option.splits if_splits)
qed

lemma constructor_inv: "hist_inv constructor"
  by (simp add: hist_inv_def constructor_def updateButtonStates_def)

lemma reachable_hist_inv: "reachable p s \<Longrightarrow> hist_inv s"
proof (induction rule: reachable.induct)
  case r_init
  show ?case by (rule constructor_inv)
next
  case (r_load s f)
  then show ?case by (simp add: loadFile_inv)
next
  case (r_input s i v)
  then show ?case by (simp add: input_inv)
next
  case (r_elapse s d)
  then show ?case by (simp add: hist_inv_def elapse_def)
next
  case (r_fire s tid s')
  then show ?case by (simp add: fire_inv)
next
  case (r_undo s s')
  then show ?case using undo_inv [of s] by auto
next
  case (r_redo s s')
  then show ?case using redo_inv [of s] by auto
next
  case (r_toggle s)
  then show ?case by (simp add: hist_inv_def toggleRender_def showStatus_def Let_def)
next
  case (r_typeset s rs)
  then show ?case by (simp add: hist_inv_def typeset_def)
qed

text \<open>The timer invariant, over the same states.\<close>

lemma pushHistory_timers: "timers (pushHistory s) = timers s \<and> debounceTimer (pushHistory s) = debounceTimer s"
  by (simp add: pushHistory_def Let_def updateButtonStates_def)

lemma render_timers: "timers (render s) = timers s \<and> debounceTimer (render s) = debounceTimer s"
  by (auto simp: render_def updateButtonStates_def split: option.splits)

lemma loadFile_timers: "timers (loadFile p f s) = timers s \<and> debounceTimer (loadFile p f s) = debounceTimer s"
  by (simp add: loadFile_def showStatus_def pushHistory_timers render_timers split: option.splits parse_result.splits)

lemma input_timers:
  "timer_inv s \<Longrightarrow> i < length (regions s) \<Longrightarrow>
   timers (input i txt s) = [(nextTimer s, clock s + 500)] \<and> debounceTimer (input i txt s) = Some (nextTimer s)"
  by (auto simp: timer_inv_def input_def setTimeout_def clearTimeout_def split: list.splits option.splits)

lemma input_timer_inv: "timer_inv s \<Longrightarrow> timer_inv (input i txt s)"
proof (cases "i < length (regions s)")
  case True
  assume "timer_inv s"
  from input_timers [OF this True] show ?thesis by (simp add: timer_inv_def)
next
  case False
  assume "timer_inv s"
  with False show ?thesis by (simp add: input_def)
qed

lemma restoreHistory_timers:
  "restoreHistory s = Inr s' \<Longrightarrow> timers s' = timers s \<and> debounceTimer s' = debounceTimer s"
  by (auto simp: restoreHistory_def updateButtonStates_def split: option.splits if_splits)

lemma undo_timers: "undo s = Inr s' \<Longrightarrow> timers s' = timers s \<and> debounceTimer s' = debounceTimer s"
  by (auto simp: undo_def showStatus_def split: if_splits sum.splits dest: restoreHistory_timers)

lemma redo_timers: "redo s = Inr s' \<Longrightarrow> timers s' = timers s \<and> debounceTimer s' = debounceTimer s"
  by (auto simp: redo_def showStatus_def split: if_splits sum.splits dest: restoreHistory_timers)

lemma fire_timer_inv: "timer_inv s \<Longrightarrow> fire tid s = Some s' \<Longrightarrow> timers s' = []"
  by (auto simp: timer_inv_def fire_def pushHistory_timers split: list.splits option.splits if_splits)

lemma reachable_timer_inv: "reachable p s \<Longrightarrow> timer_inv s"
proof (induction rule: reachable.induct)
  case r_init
  show ?case by (simp add: timer_inv_def constructor_def updateButtonStates_def)
next
  case (r_load s f)
  then show ?case by (simp add: timer_inv_def loadFile_timers split: list.splits)
next
  case (r_input s i v)
  then show ?case by (simp add: input_timer_inv)
next
  case (r_elapse s d)
  then show ?case by (simp add: timer_inv_def elapse_def split: list.splits)
next
  case (r_fire s tid s')
  then show ?case using fire_timer_inv [of s tid s'] by (simp add: timer_inv_def)
next
  case (r_undo s s')
  then show ?case using undo_timers [of s s'] by (simp add: timer_inv_def split: list.splits)
next
  case (r_redo s s')
  then show ?case using redo_timers [of s s'] by (simp add: timer_inv_def split: list.splits)
next
  case (r_toggle s)
  then show ?case
    by (simp add: timer_inv_def toggleRender_def showStatus_def Let_def split: list.splits)
next
  case (r_typeset s rs)
  then show ?case by (simp add: timer_inv_def typeset_def split: list.splits)
qed

section \<open>Lemmas on the history operations\<close>

lemma restored_self: "restored snap (length snap) = snap"
proof (rule nth_equalityI)
  show "length (restored snap (length snap)) = length snap"
    by (simp add: restored_def)
next
  fix i
  assume "i < length (restored snap (length snap))"
  then have "i < length snap" by (simp add: restored_def)
  then show "restored snap (length snap) ! i = snap ! i"
    by (simp add: restored_def js_index_def)
qed

lemma pushHistory_same:
  "0 \<le> historyIndex s \<Longrightarrow> js_index (history s) (historyIndex s) = Some (regions s) \<Longrightarrow>
   pushHistory s = s"
  by (simp add: pushHistory_def)

lemma pushHistory_cursor_entry:
  "hist_inv s \<Longrightarrow>
   js_index (history (pushHistory s)) (historyIndex (pushHistory s)) = Some (regions s)
   \<and> 0 \<le> historyIndex (pushHistory s) \<and> regions (pushHistory s) = regions s"
  by (auto simp: hist_inv_def pushHistory_def Let_def updateButtonStates_def js_slice0_def
      js_index_def min_def nth_append)

section \<open>A run of the editor\<close>

text \<open>
  A parser that makes one section of a text and throws on the text \<^verbatim>\<open>bad\<close>, a file, and
  the states of a short session: the file is loaded, the user types \<^verbatim>\<open>b\<close> over the
  content and half a second passes (\<open>st_typed\<close>), the timeout fires (\<open>st_edited\<close>), the
  user undoes the edit (\<open>st_undone\<close>); or, from \<open>st_edited\<close>, the user types \<^verbatim>\<open>c\<close> and
  undoes and redoes before the timeout fires.
\<close>

definition example_parse :: "string \<Rightarrow> parse_result" where
  "example_parse t = (if t = ''bad'' then Throws else Returns [Node 1 ''Intro'' t []])"

definition example_parser :: parser where
  "example_parser = Some example_parse"

definition file_a :: tex_file where
  "file_a = \<lparr>ftype = ''text/plain'', fname = ''a.tex'', ftext = ''a''\<rparr>"

definition st_loaded :: editor where
  "st_loaded = loadFile example_parser file_a constructor"

definition st_typed :: editor where
  "st_typed = elapse 500 (input 0 ''b'' st_loaded)"

definition st_edited :: editor where
  "st_edited = pushHistory (st_typed\<lparr>timers := []\<rparr>)"

definition st_undone :: editor where
  "st_undone =
     st_edited\<lparr>historyIndex := 0, regions := [''a''], undoDisabled := True,
       redoDisabled := False, statusMessage := Some ''Undo successful''\<rparr>"

definition st_pending :: editor where
  "st_pending = input 0 ''c'' st_edited"

definition st_pending_undone :: editor where
  "st_pending_undone =
     st_pending\<lparr>historyIndex := 0, regions := [''a''], undoDisabled := True,
       redoDisabled := False, statusMessage := Some ''Undo successful''\<rparr>"

definition st_pending_redone :: editor where
  "st_pending_redone =
     st_pending\<lparr>historyIndex := 1, regions := [''b''], undoDisabled := False,
       redoDisabled := True, statusMessage := Some ''Redo successful''\<rparr>"

text \<open>A second file, loaded after the first (\<open>st_reloaded\<close>), and a file on which the
  parser throws, loaded after the first (\<open>st_failed\<close>).\<close>

definition file_b :: tex_file where
  "file_b = \<lparr>ftype = [], fname = ''b.tex'', ftext = ''b''\<rparr>"

definition file_bad :: tex_file where
  "file_bad = \<lparr>ftype = ''text/x-tex'', fname = ''bad.tex'', ftext = ''bad''\<rparr>"

definition st_reloaded :: editor where
  "st_reloaded = loadFile example_parser file_b st_loaded"

text \<open>The first file loaded once more, right after it was loaded (\<open>st_same\<close>).\<close>

definition st_same :: editor where
  "st_same = loadFile example_parser file_a st_loaded"

definition st_failed :: editor where
  "st_failed = loadFile example_parser file_bad st_loaded"

text \<open>A parser that makes two sections of a text, and the file loaded with it.\<close>

definition two_parse :: "string \<Rightarrow> parse_result" where
  "two_parse t = Returns [Node 1 ''One'' t [], Node 1 ''Two'' t []]"

definition st_two :: editor where
  "st_two = loadFile (Some two_parse) file_a constructor"

lemma string_of_nat_1: "string_of_nat (Suc 0) = ''1''"
  by (simp add: string_of_nat.simps digit_char_def)

lemma st_loaded_eq:
  "st_loaded = \<lparr>history = [[''a'']], historyIndex = 0, rendering = False,
     debounceTimer = None, nodes = Some [Node 1 ''Intro'' ''a'' []],
     container = Blocks [Block 1 ''1 '' ''Intro'' ''a'' ''Intro content'' []],
     regions = [''a''], undoDisabled = True, redoDisabled = True,
     statusMessage = Some ''File loaded successfully'', timers = [], nextTimer = 0, clock = 0\<rparr>"
  by (simp add: st_loaded_def loadFile_def file_a_def example_parser_def example_parse_def
      endsWith_def constructor_def updateButtonStates_def render_def pushHistory_def
      showStatus_def js_index_def js_slice0_def string_of_nat_1 clean_title_id)

lemma st_typed_eq:
  "st_typed = \<lparr>history = [[''a'']], historyIndex = 0, rendering = False,
     debounceTimer = Some 0, nodes = Some [Node 1 ''Intro'' ''a'' []],
     container = Blocks [Block 1 ''1 '' ''Intro'' ''a'' ''Intro content'' []],
     regions = [''b''], undoDisabled = True, redoDisabled = True,
     statusMessage = Some ''File loaded successfully'', timers = [(0, 500)],
     nextTimer = 1, clock = 500\<rparr>"
  by (simp add: st_typed_def st_loaded_eq input_def elapse_def setTimeout_def clearTimeout_def)

lemma st_edited_eq:
  "st_edited = \<lparr>history = [[''a''], [''b'']], historyIndex = 1, rendering = False,
     debounceTimer = Some 0, nodes = Some [Node 1 ''Intro'' ''a'' []],
     container = Blocks [Block 1 ''1 '' ''Intro'' ''a'' ''Intro content'' []],
     regions = [''b''], undoDisabled = False, redoDisabled = True,
     statusMessage = Some ''File loaded successfully'', timers = [], nextTimer = 1,
     clock = 500\<rparr>"
  by (simp add: st_edited_def st_typed_eq pushHistory_def Let_def js_index_def js_slice0_def
      updateButtonStates_def)

lemma st_reloaded_eq:
  "st_reloaded = \<lparr>history = [[''a''], [''b'']], historyIndex = 1, rendering = False,
     debounceTimer = None, nodes = Some [Node 1 ''Intro'' ''b'' []],
     container = Blocks [Block 1 ''1 '' ''Intro'' ''b'' ''Intro content'' []],
     regions = [''b''], undoDisabled = False, redoDisabled = True,
     statusMessage = Some ''File loaded successfully'', timers = [], nextTimer = 0, clock = 0\<rparr>"
  by (simp add: st_reloaded_def st_loaded_eq loadFile_def file_b_def example_parser_def
      example_parse_def endsWith_def updateButtonStates_def render_def pushHistory_def Let_def
      showStatus_def js_index_def js_slice0_def string_of_nat_1 clean_title_id)

lemma st_same_eq: "st_same = st_loaded"
  by (simp add: st_same_def st_loaded_eq loadFile_def file_a_def example_parser_def
      example_parse_def endsWith_def updateButtonStates_def render_def pushHistory_def Let_def
      showStatus_def js_index_def js_slice0_def string_of_nat_1 clean_title_id)

lemma fire_st_typed: "fire 0 st_typed = Some st_edited"
  by (simp add: fire_def st_edited_def) (simp add: st_typed_eq)

lemma undo_st_edited: "undo st_edited = Inr st_undone"
  by (simp add: st_undone_def st_edited_eq undo_def restoreHistory_def js_index_def
      restored_def updateButtonStates_def showStatus_def)

lemma st_pending_eq:
  "st_pending = st_edited\<lparr>regions := [''c''], debounceTimer := Some 1,
     timers := [(1, 1000)], nextTimer := 2\<rparr>"
  by (simp add: st_pending_def st_edited_eq input_def setTimeout_def clearTimeout_def)

lemma undo_st_pending: "undo st_pending = Inr st_pending_undone"
  by (simp add: st_pending_undone_def st_pending_eq st_edited_eq undo_def restoreHistory_def
      js_index_def restored_def updateButtonStates_def showStatus_def)

lemma redo_st_pending_undone: "redo st_pending_undone = Inr st_pending_redone"
  by (simp add: st_pending_undone_def st_pending_redone_def st_pending_eq st_edited_eq redo_def
      restoreHistory_def js_index_def restored_def updateButtonStates_def showStatus_def)

lemma reachable_st_loaded: "reachable example_parser st_loaded"
  unfolding st_loaded_def by (intro r_load r_init)

lemma reachable_st_typed: "reachable example_parser st_typed"
  unfolding st_typed_def by (intro r_elapse r_input reachable_st_loaded)

lemma reachable_st_edited: "reachable example_parser st_edited"
  using reachable_st_typed fire_st_typed by (rule r_fire)

lemma reachable_st_undone: "reachable example_parser st_undone"
  using reachable_st_edited undo_st_edited by (rule r_undo)

lemma reachable_st_pending: "reachable example_parser st_pending"
  unfolding st_pending_def by (intro r_input reachable_st_edited)

section \<open>The history engine\<close>

text \<open>
  C5. Every operation of the history engine keeps the invariant of the log: when the
  cursor is -1 exactly if the log is empty and inside the log otherwise, the same holds
  after \<^verbatim>\<open>pushHistory\<close>, after \<^verbatim>\<open>undo\<close> and after \<^verbatim>\<open>redo\<close>, and the latter two return
  (the snapshot they restore exists, nothing is thrown).
\<close>

theorem history_ops_preserve_invariant:
  assumes "hist_inv s"
  shows "hist_inv (pushHistory s)
         \<and> (\<exists>s'. undo s = Inr s' \<and> hist_inv s')
         \<and> (\<exists>s'. redo s = Inr s' \<and> hist_inv s')"
  using assms pushHistory_inv undo_inv redo_inv by blast

theorem history_ops_preserve_invariant_witness:
  "hist_inv st_edited \<and> hist_inv (pushHistory st_edited)
   \<and> (\<exists>s'. undo st_edited = Inr s' \<and> hist_inv s')
   \<and> (\<exists>s'. redo st_edited = Inr s' \<and> hist_inv s')"
proof -
  have h: "hist_inv st_edited" by (simp add: hist_inv_def st_edited_eq)
  from history_ops_preserve_invariant [OF h] h show ?thesis by simp
qed

text \<open>
  C6. In every state the editor can be in, a push whose snapshot (the current content of
  the regions) equals the entry at the cursor changes nothing at all, and a second push
  right after a push, with the content unchanged, changes nothing: entries and cursor
  stay as the first push left them.
\<close>

theorem pushHistory_idempotent:
  assumes "reachable p s"
  shows "(js_index (history s) (historyIndex s) = Some (regions s) \<longrightarrow> pushHistory s = s)
         \<and> pushHistory (pushHistory s) = pushHistory s"
proof -
  from assms have h: "hist_inv s" by (rule reachable_hist_inv)
  have "pushHistory s = s" if e: "js_index (history s) (historyIndex s) = Some (regions s)"
  proof -
    from e have "0 \<le> historyIndex s" by (simp add: js_index_def split: if_splits)
    then show ?thesis using e by (rule pushHistory_same)
  qed
  moreover have "pushHistory (pushHistory s) = pushHistory s"
    using pushHistory_cursor_entry [OF h] pushHistory_same [of "pushHistory s"] by simp
  ultimately show ?thesis by blast
qed

theorem pushHistory_idempotent_witness:
  "reachable example_parser st_typed
   \<and> pushHistory st_typed \<noteq> st_typed
   \<and> history (pushHistory st_typed) = [[''a''], [''b'']]
   \<and> pushHistory (pushHistory st_typed) = pushHistory st_typed
   \<and> js_index (history st_edited) (historyIndex st_edited) = Some (regions st_edited)
   \<and> pushHistory st_edited = st_edited"
proof -
  have e: "js_index (history st_edited) (historyIndex st_edited) = Some (regions st_edited)"
    by (simp add: st_edited_eq js_index_def)
  have n: "history (pushHistory st_typed) = [[''a''], [''b'']]"
    by (simp add: st_typed_eq pushHistory_def Let_def js_index_def js_slice0_def
        updateButtonStates_def)
  have d: "pushHistory st_typed \<noteq> st_typed"
  proof
    assume "pushHistory st_typed = st_typed"
    then have "history (pushHistory st_typed) = history st_typed" by simp
    then show False unfolding n by (simp add: st_typed_eq)
  qed
  from pushHistory_idempotent [OF reachable_st_typed]
    pushHistory_idempotent [OF reachable_st_edited] reachable_st_typed e n d
  show ?thesis by simp
qed

text \<open>
  C8. In every state the editor can be in: \<^verbatim>\<open>undo\<close> with the cursor at 0 or below returns
  the state as it is (cursor, regions, status message and all); otherwise it moves the
  cursor down by one, leaves the log alone and writes the snapshot now at the cursor
  into the regions. \<^verbatim>\<open>redo\<close> with the cursor at the last entry or beyond returns the
  state as it is; otherwise it moves the cursor up by one, leaves the log alone and
  writes the snapshot now at the cursor into the regions. Writing a snapshot is
  \<open>restored\<close>: region i gets entry i of the snapshot, or the empty string where the
  snapshot has none.
\<close>

theorem undo_redo_guards:
  assumes "reachable p s"
  shows "(historyIndex s \<le> 0 \<longrightarrow> undo s = Inr s)
    \<and> (0 < historyIndex s \<longrightarrow>
         (\<exists>s'. undo s = Inr s' \<and> historyIndex s' = historyIndex s - 1 \<and> history s' = history s
            \<and> regions s' = restored (history s ! nat (historyIndex s - 1)) (length (regions s))))
    \<and> (historyIndex s \<ge> int (length (history s)) - 1 \<longrightarrow> redo s = Inr s)
    \<and> (historyIndex s < int (length (history s)) - 1 \<longrightarrow>
         (\<exists>s'. redo s = Inr s' \<and> historyIndex s' = historyIndex s + 1 \<and> history s' = history s
            \<and> regions s' = restored (history s ! nat (historyIndex s + 1)) (length (regions s))))"
proof -
  from assms have h: "hist_inv s" by (rule reachable_hist_inv)
  have "undo s = Inr s" if "historyIndex s \<le> 0"
    using that by (simp add: undo_def)
  moreover have "redo s = Inr s" if "historyIndex s \<ge> int (length (history s)) - 1"
    using that by (simp add: redo_def)
  moreover have "\<exists>s'. undo s = Inr s' \<and> historyIndex s' = historyIndex s - 1
            \<and> history s' = history s
            \<and> regions s' = restored (history s ! nat (historyIndex s - 1)) (length (regions s))"
    if "0 < historyIndex s"
    using undo_step [OF h that] by (simp add: showStatus_def updateButtonStates_def)
  moreover have "\<exists>s'. redo s = Inr s' \<and> historyIndex s' = historyIndex s + 1
            \<and> history s' = history s
            \<and> regions s' = restored (history s ! nat (historyIndex s + 1)) (length (regions s))"
    if "historyIndex s < int (length (history s)) - 1"
    using redo_step [OF h that] by (simp add: showStatus_def updateButtonStates_def)
  ultimately show ?thesis by blast
qed

theorem undo_redo_guards_witness:
  "reachable example_parser st_edited \<and> reachable example_parser st_undone
   \<and> historyIndex st_edited = 1 \<and> length (history st_edited) = 2
   \<and> (\<exists>s'. undo st_edited = Inr s' \<and> historyIndex s' = 0 \<and> regions s' = [''a''])
   \<and> redo st_edited = Inr st_edited
   \<and> historyIndex st_undone = 0
   \<and> undo st_undone = Inr st_undone
   \<and> (\<exists>s'. redo st_undone = Inr s' \<and> historyIndex s' = 1 \<and> regions s' = [''b''])"
proof -
  have a: "historyIndex st_edited = 1" "length (history st_edited) = 2"
    "history st_edited = [[''a''], [''b'']]" "regions st_edited = [''b'']"
    by (simp_all add: st_edited_eq)
  have b: "historyIndex st_undone = 0" "history st_undone = [[''a''], [''b'']]"
    "regions st_undone = [''a'']"
    by (simp_all add: st_undone_def st_edited_eq)
  have c: "restored [''a''] (Suc 0) = [''a'']" "restored [''b''] (Suc 0) = [''b'']"
    by (simp_all add: restored_def js_index_def)
  from undo_redo_guards [OF reachable_st_edited] undo_redo_guards [OF reachable_st_undone]
    reachable_st_edited reachable_st_undone
  show ?thesis by (auto simp: a b c)
qed

text \<open>
  C7, as the claim states it, fails: in \<open>st_pending\<close> the user has typed \<^verbatim>\<open>c\<close> and the
  timeout of that edit has not fired. \<^verbatim>\<open>undo\<close> then \<^verbatim>\<open>redo\<close> leaves the region with
  \<^verbatim>\<open>b\<close>, the last snapshot, not with the \<^verbatim>\<open>c\<close> it held before the undo.
\<close>

theorem undo_then_redo_loses_pending_edit:
  "reachable example_parser st_pending
   \<and> regions st_pending = [''c''] \<and> 0 < historyIndex st_pending
   \<and> undo st_pending = Inr st_pending_undone
   \<and> redo st_pending_undone = Inr st_pending_redone
   \<and> regions st_pending_redone = [''b'']
   \<and> regions st_pending_redone \<noteq> regions st_pending"
proof -
  have "regions st_pending = [''c'']" "0 < historyIndex st_pending"
    "regions st_pending_redone = [''b'']"
    by (simp_all add: st_pending_redone_def st_pending_eq st_edited_eq)
  with reachable_st_pending undo_st_pending redo_st_pending_undone show ?thesis by simp
qed

text \<open>
  C7, amended. In every state the editor can be in where the cursor is above 0 and the
  content of the regions is the snapshot at the cursor (no edit is waiting for its
  timeout), \<^verbatim>\<open>undo\<close> and then \<^verbatim>\<open>redo\<close> both return, and leave every region with the
  content it held before the undo, with the cursor and the log as they were.
\<close>

theorem undo_then_redo_round_trip:
  assumes "reachable p s"
    and "0 < historyIndex s"
    and "js_index (history s) (historyIndex s) = Some (regions s)"
  shows "\<exists>s1 s2. undo s = Inr s1 \<and> redo s1 = Inr s2
           \<and> regions s2 = regions s \<and> historyIndex s2 = historyIndex s \<and> history s2 = history s"
proof -
  from assms(1) have h: "hist_inv s" by (rule reachable_hist_inv)
  let ?s1 = "showStatus ''Undo successful'' (updateButtonStates
      (s\<lparr>historyIndex := historyIndex s - 1,
         regions := restored (history s ! nat (historyIndex s - 1)) (length (regions s))\<rparr>))"
  have u: "undo s = Inr ?s1" using undo_step [OF h assms(2)] .
  have r1: "reachable p ?s1" using assms(1) u by (rule r_undo)
  then have h1: "hist_inv ?s1" by (rule reachable_hist_inv)
  from assms(3) have lt: "historyIndex s < int (length (history s))"
    and entry: "history s ! nat (historyIndex s) = regions s"
    by (simp_all add: js_index_def split: if_splits)
  have f1: "historyIndex ?s1 = historyIndex s - 1" "history ?s1 = history s"
    "length (regions ?s1) = length (regions s)"
    by (simp_all add: showStatus_def updateButtonStates_def restored_def)
  have lt1: "historyIndex ?s1 < int (length (history ?s1)) - 1"
    using lt by (simp add: f1)
  let ?s2 = "showStatus ''Redo successful'' (updateButtonStates
      (?s1\<lparr>historyIndex := historyIndex ?s1 + 1,
         regions := restored (history ?s1 ! nat (historyIndex ?s1 + 1)) (length (regions ?s1))\<rparr>))"
  have r: "redo ?s1 = Inr ?s2" using redo_step [OF h1 lt1] .
  have "regions ?s2 = restored (regions s) (length (regions s))"
    using entry by (simp add: showStatus_def updateButtonStates_def f1 restored_def)
  then have "regions ?s2 = regions s" by (simp add: restored_self)
  moreover have "historyIndex ?s2 = historyIndex s" "history ?s2 = history s"
    by (simp_all add: showStatus_def updateButtonStates_def)
  ultimately show ?thesis using u r by blast
qed

theorem undo_then_redo_round_trip_witness:
  "reachable example_parser st_edited \<and> 0 < historyIndex st_edited
   \<and> js_index (history st_edited) (historyIndex st_edited) = Some (regions st_edited)
   \<and> (\<exists>s1 s2. undo st_edited = Inr s1 \<and> redo s1 = Inr s2 \<and> regions s2 = [''b''])"
proof -
  have a: "0 < historyIndex st_edited" by (simp add: st_edited_eq)
  have b: "js_index (history st_edited) (historyIndex st_edited) = Some (regions st_edited)"
    by (simp add: st_edited_eq js_index_def)
  have c: "regions st_edited = [''b'']" by (simp add: st_edited_eq)
  from undo_then_redo_round_trip [OF reachable_st_edited a b] reachable_st_edited a b
  show ?thesis unfolding c by blast
qed

section \<open>The renderer\<close>

text \<open>
  C2. The claim: rendering shows a title with every wrapper \<^verbatim>\<open>command{argument}\<close>
  replaced by its argument, so that \<^verbatim>\<open>emph{Intro}\<close> is shown as \<^verbatim>\<open>Intro\<close>. The code does
  not: where the pattern of \<^verbatim>\<open>renderNode\<close> should open a character class after an
  escaped backslash, it has the character U+E001, and it matches only that character
  followed by the literal text \<^verbatim>\<open>a-zA-Z]\<close> before the brace. The title \<^verbatim>\<open>emph{Intro}\<close>,
  with or without a backslash in front, is shown as it is, and so are its code units
  under the replacement (as is every title of the model, by \<open>clean_title_id\<close>); what the
  replacement unwraps is U+E001 followed by \<^verbatim>\<open>a-zA-Z]{Intro}\<close>.
\<close>

theorem clean_title_keeps_wrapper:
  "clean_title ''emph{Intro}'' = ''emph{Intro}''
   \<and> clean_title (CHR 0x5C # ''emph{Intro}'') = CHR 0x5C # ''emph{Intro}''
   \<and> titleSpan (renderNode (Node 1 ''emph{Intro}'' ''text'' []) ''1'') = ''emph{Intro}''
   \<and> replace_wrappers (units ''emph{Intro}'') = units ''emph{Intro}''
   \<and> replace_wrappers (0xE001 # units ''a-zA-Z]{Intro}'') = units ''Intro''"
proof -
  have "replace_wrappers (units ''emph{Intro}'') = units ''emph{Intro}''"
    by (rule replace_wrappers_no_marker [OF units_no_marker])
  moreover have "replace_wrappers (0xE001 # units ''a-zA-Z]{Intro}'') = units ''Intro''"
    by (simp add: match_at_def units_def)
  ultimately show ?thesis by (simp add: clean_title_id)
qed

lemma renderChildren_length: "length (renderChildren chs number k) = length chs"
  by (induction chs arbitrary: k) auto

lemma renderChildren_nth:
  "j < length chs \<Longrightarrow>
   renderChildren chs number k ! j = renderNode (chs ! j) (number @ ''.'' @ string_of_nat (k + j + 1))"
proof (induction chs arbitrary: k j)
  case Nil
  then show ?case by simp
next
  case (Cons c cs)
  show ?case
  proof (cases j)
    case 0
    then show ?thesis by simp
  next
    case (Suc j')
    with Cons.prems have "j' < length cs" by simp
    from Cons.IH [OF this, of "k + 1"] Suc show ?thesis by simp
  qed
qed

lemma renderTop_length: "length (renderTop ns k) = length ns"
  by (induction ns arbitrary: k) auto

lemma renderTop_nth:
  "i < length ns \<Longrightarrow> renderTop ns k ! i = renderNode (ns ! i) (string_of_nat (k + i + 1))"
proof (induction ns arbitrary: k i)
  case Nil
  then show ?case by simp
next
  case (Cons n rest)
  show ?case
  proof (cases i)
    case 0
    then show ?thesis by simp
  next
    case (Suc i')
    with Cons.prems have "i' < length rest" by simp
    from Cons.IH [OF this, of "k + 1"] Suc show ?thesis by simp
  qed
qed

lemma nested_renderNode: "nested (renderNode n number) = renderChildren (children n) number 0"
  by (cases n) simp

lemma numberSpan_renderNode:
  "numberSpan (renderNode n number) = (if level n > 0 then number @ '' '' else [])"
  by (cases n) simp

lemma block_at_children:
  "node_at chs path = Some n \<Longrightarrow>
   block_at (renderChildren chs number 0) path = Some (renderNode n (number @ ''.'' @ dotted path))"
proof (induction path arbitrary: chs number)
  case Nil
  then show ?case by simp
next
  case (Cons i path)
  from Cons.prems have i: "i < length chs" by (simp split: if_splits)
  show ?case
  proof (cases "path = []")
    case True
    with Cons.prems i show ?thesis
      by (simp add: renderChildren_length renderChildren_nth)
  next
    case False
    with Cons.prems i have "node_at (children (chs ! i)) path = Some n" by simp
    from Cons.IH [OF this, of "number @ ''.'' @ string_of_nat (i + 1)"] False i show ?thesis
      by (simp add: renderChildren_length renderChildren_nth nested_renderNode)
  qed
qed

lemma block_at_top:
  "node_at ns path = Some n \<Longrightarrow> block_at (renderTop ns 0) path = Some (renderNode n (dotted path))"
proof (cases path)
  case Nil
  assume "node_at ns path = Some n"
  with Nil show ?thesis by simp
next
  case (Cons i rest)
  assume a: "node_at ns path = Some n"
  with Cons have i: "i < length ns" by (simp split: if_splits)
  show ?thesis
  proof (cases "rest = []")
    case True
    with a Cons i show ?thesis by (simp add: renderTop_length renderTop_nth)
  next
    case False
    with a Cons i have "node_at (children (ns ! i)) rest = Some n" by simp
    from block_at_children [OF this, of "string_of_nat (i + 1)"] False i Cons show ?thesis
      by (simp add: renderTop_length renderTop_nth nested_renderNode)
  qed
qed

text \<open>
  C9. The top-level node at index i (from 0) is rendered with the number i + 1, and the
  child at index j of a node rendered with number p is rendered with the number p, a
  dot, and j + 1. The number span of a node shows its number and a space when its level
  is above 0, and nothing otherwise, whatever the level of its ancestors. Together: the
  block at a path of the rendered forest is the rendering of the node at that path under
  the dotted number the path spells.
\<close>

theorem dotted_numbering:
  "(i < length ns \<longrightarrow> renderTop ns 0 ! i = renderNode (ns ! i) (string_of_nat (i + 1)))
   \<and> (j < length (children n) \<longrightarrow>
        nested (renderNode n number) ! j
          = renderNode (children n ! j) (number @ ''.'' @ string_of_nat (j + 1)))
   \<and> numberSpan (renderNode n number) = (if level n > 0 then number @ '' '' else [])
   \<and> (node_at ns path = Some m \<longrightarrow>
        (\<exists>b. block_at (renderTop ns 0) path = Some b \<and> b = renderNode m (dotted path)
           \<and> numberSpan b = (if level m > 0 then dotted path @ '' '' else [])))"
  using renderTop_nth [of i ns 0] renderChildren_nth [of j "children n" number 0]
    block_at_top [of ns path m]
  by (simp add: nested_renderNode numberSpan_renderNode)

theorem dotted_numbering_witness:
  "node_at example_forest [2, 1] = Some (Node 1 ''E'' ''e'' [])
   \<and> (\<exists>b. block_at (renderTop example_forest 0) [2, 1] = Some b \<and> numberSpan b = ''3.2 '')
   \<and> node_at example_forest [2] = Some (Node 0 ''C'' ''c'' [Node 1 ''D'' ''d'' [], Node 1 ''E'' ''e'' []])
   \<and> (\<exists>b. block_at (renderTop example_forest 0) [2] = Some b \<and> numberSpan b = [])
   \<and> numberSpan (renderTop example_forest 0 ! 1) = ''2 ''"
proof -
  have a: "node_at example_forest [2, 1] = Some (Node 1 ''E'' ''e'' [])"
    by (simp add: example_forest_def)
  have b: "node_at example_forest [2]
      = Some (Node 0 ''C'' ''c'' [Node 1 ''D'' ''d'' [], Node 1 ''E'' ''e'' []])"
    by (simp add: example_forest_def)
  have c: "(1::nat) < length example_forest" "example_forest ! 1 = Node 1 ''B'' ''b'' []"
    by (simp_all add: example_forest_def)
  have d: "dotted [2, 1] = ''3.2''" "dotted [2] = ''3''"
    by (simp_all add: string_of_nat.simps digit_char_def)
  from dotted_numbering [of 1 example_forest 0 "Node 1 ''A'' ''a'' []" "''1''" "[2, 1]" "Node 1 ''E'' ''e'' []"]
    dotted_numbering [of 1 example_forest 0 "Node 1 ''A'' ''a'' []" "''1''" "[2]"
      "Node 0 ''C'' ''c'' [Node 1 ''D'' ''d'' [], Node 1 ''E'' ''e'' []]"]
    a b c d
  show ?thesis by (simp add: string_of_nat.simps digit_char_def)
qed

section \<open>Loading a file\<close>

lemma render_regions:
  "nodes s = Some ns \<Longrightarrow> regions (render s) = concat (map contents_of (renderTop ns 0))"
  by (simp add: render_def updateButtonStates_def)

lemma loadFile_success:
  "statusMessage (loadFile p f s) = Some ''File loaded successfully'' \<Longrightarrow>
   \<exists>ns. loadFile p f s = showStatus ''File loaded successfully'' (pushHistory (render (s\<lparr>nodes := Some ns\<rparr>)))"
  by (auto simp: loadFile_def showStatus_def split: if_splits option.splits parse_result.splits)

lemma pushHistory_history:
  "hist_inv s \<Longrightarrow>
   history (pushHistory s) =
     (if js_index (history s) (historyIndex s) = Some (regions s) then history s
      else take (nat (historyIndex s + 1)) (history s) @ [regions s])
   \<and> historyIndex (pushHistory s) =
     (if js_index (history s) (historyIndex s) = Some (regions s) then historyIndex s
      else historyIndex s + 1)"
  by (auto simp: hist_inv_def pushHistory_def Let_def updateButtonStates_def js_slice0_def
      js_index_def min_def)

lemma loadFile_history:
  assumes "hist_inv s"
    and "statusMessage (loadFile p f s) = Some ''File loaded successfully''"
  shows "js_index (history (loadFile p f s)) (historyIndex (loadFile p f s))
           = Some (regions (loadFile p f s))
     \<and> history (loadFile p f s) =
         (if js_index (history s) (historyIndex s) = Some (regions (loadFile p f s))
          then history s
          else take (nat (historyIndex s + 1)) (history s) @ [regions (loadFile p f s)])
     \<and> historyIndex (loadFile p f s) =
         (if js_index (history s) (historyIndex s) = Some (regions (loadFile p f s))
          then historyIndex s else historyIndex s + 1)
     \<and> (history s = [] \<longrightarrow>
          history (loadFile p f s) = [regions (loadFile p f s)] \<and> historyIndex (loadFile p f s) = 0)
     \<and> (\<exists>ns. nodes (loadFile p f s) = Some ns
          \<and> regions (loadFile p f s) = concat (map contents_of (renderTop ns 0)))"
proof -
  note h = assms(1)
  from loadFile_success [OF assms(2)] obtain ns where
    l: "loadFile p f s = showStatus ''File loaded successfully'' (pushHistory (render (s\<lparr>nodes := Some ns\<rparr>)))"
    by blast
  let ?r = "render (s\<lparr>nodes := Some ns\<rparr>)"
  have hr: "hist_inv ?r" using h by (simp add: hist_inv_def render_history)
  have rh: "history ?r = history s" "historyIndex ?r = historyIndex s"
    by (simp_all add: render_history)
  have rr: "regions ?r = concat (map contents_of (renderTop ns 0))"
    by (simp add: render_regions)
  have rn: "nodes ?r = Some ns"
    by (simp add: render_def updateButtonStates_def)
  have f: "history (loadFile p f s) = history (pushHistory ?r)"
    "historyIndex (loadFile p f s) = historyIndex (pushHistory ?r)"
    "regions (loadFile p f s) = regions ?r"
    "nodes (loadFile p f s) = Some ns"
    using pushHistory_cursor_entry [OF hr] rn
    by (simp_all add: l showStatus_def pushHistory_def Let_def updateButtonStates_def)
  have e: "history s = [] \<Longrightarrow> historyIndex s = -1" using h by (simp add: hist_inv_def)
  show ?thesis
    unfolding f using pushHistory_cursor_entry [OF hr] pushHistory_history [OF hr] rr e
    by (auto simp: rh js_index_def)
qed

lemma one_entry_char:
  assumes "hist_inv s"
    and "hs = (if js_index (history s) (historyIndex s) = Some snap then history s
          else take (nat (historyIndex s + 1)) (history s) @ [snap])"
  shows "(length hs = 1) = (history s = [] \<or> history s = [snap])"
proof (cases "history s = []")
  case True
  then have "js_index (history s) (historyIndex s) = None" by (simp add: js_index_def)
  with True assms(2) show ?thesis by simp
next
  case False
  with assms(1) have r: "0 \<le> historyIndex s" "historyIndex s < int (length (history s))"
    by (auto simp: hist_inv_def)
  show ?thesis
  proof (cases "js_index (history s) (historyIndex s) = Some snap")
    case True
    with r have e: "history s ! nat (historyIndex s) = snap" by (simp add: js_index_def)
    from True assms(2) have hs: "hs = history s" by simp
    have "history s = [snap]" if l: "length (history s) = 1"
    proof -
      from l r have "nat (historyIndex s) = 0" by simp
      with e have "history s ! 0 = snap" by simp
      with l show ?thesis by (cases "history s") auto
    qed
    then show ?thesis unfolding hs using False by auto
  next
    case n: False
    from n assms(2) have hs: "hs = take (nat (historyIndex s + 1)) (history s) @ [snap]"
      by simp
    have "length hs = nat (historyIndex s + 1) + 1"
      unfolding hs using r by simp
    with r have "length hs \<noteq> 1" by simp
    moreover have "history s \<noteq> [snap]"
    proof
      assume a: "history s = [snap]"
      with r have "historyIndex s = 0" by simp
      with a n show False by (simp add: js_index_def)
    qed
    ultimately show ?thesis using False by simp
  qed
qed

lemma loadFile_one_entry:
  assumes "hist_inv s"
    and "statusMessage (loadFile p f s) = Some ''File loaded successfully''"
  shows "(length (history (loadFile p f s)) = 1)
           = (history s = [] \<or> history s = [regions (loadFile p f s)])"
proof -
  from loadFile_history [OF assms]
  have "history (loadFile p f s) =
         (if js_index (history s) (historyIndex s) = Some (regions (loadFile p f s))
          then history s
          else take (nat (historyIndex s + 1)) (history s) @ [regions (loadFile p f s)])"
    by blast
  with assms(1) show ?thesis by (rule one_entry_char)
qed

text \<open>
  C1, as the claim states it, fails: \<^verbatim>\<open>loadFile\<close> never empties the history. After a
  first file with content \<^verbatim>\<open>a\<close> and a second with content \<^verbatim>\<open>b\<close>, both loaded with
  success, the log holds two entries.
\<close>

theorem loadFile_keeps_earlier_history:
  "statusMessage st_reloaded = Some ''File loaded successfully''
   \<and> history st_reloaded = [[''a''], [''b'']]
   \<and> length (history st_reloaded) = 2
   \<and> historyIndex st_reloaded = 1"
  by (simp add: st_reloaded_eq)

text \<open>
  C1, amended. In every state the editor can be in, a load that reports success pushes
  the snapshot of the newly rendered document as any push does: the cursor then points
  at that snapshot; the log is the old log up to the old cursor with the snapshot
  appended, or the old log unchanged when the entry at the old cursor already equals
  the snapshot. When the log was empty before the load it holds exactly that one entry
  afterwards, with the cursor 0. The log holds exactly one entry after the load if and
  only if before the load it was empty or held that snapshot as its only entry. The
  snapshot is the content of the nodes the parser returned, in document order.
\<close>

theorem loadFile_pushes_snapshot:
  assumes "reachable p s"
    and "statusMessage (loadFile p f s) = Some ''File loaded successfully''"
  shows "js_index (history (loadFile p f s)) (historyIndex (loadFile p f s))
           = Some (regions (loadFile p f s))
     \<and> history (loadFile p f s) =
         (if js_index (history s) (historyIndex s) = Some (regions (loadFile p f s))
          then history s
          else take (nat (historyIndex s + 1)) (history s) @ [regions (loadFile p f s)])
     \<and> historyIndex (loadFile p f s) =
         (if js_index (history s) (historyIndex s) = Some (regions (loadFile p f s))
          then historyIndex s else historyIndex s + 1)
     \<and> (history s = [] \<longrightarrow>
          history (loadFile p f s) = [regions (loadFile p f s)] \<and> historyIndex (loadFile p f s) = 0)
     \<and> (\<exists>ns. nodes (loadFile p f s) = Some ns
          \<and> regions (loadFile p f s) = concat (map contents_of (renderTop ns 0)))
     \<and> ((length (history (loadFile p f s)) = 1)
          = (history s = [] \<or> history s = [regions (loadFile p f s)]))"
proof -
  from assms(1) have h: "hist_inv s" by (rule reachable_hist_inv)
  from loadFile_history [OF h assms(2)] loadFile_one_entry [OF h assms(2)]
  show ?thesis by (intro conjI) blast+
qed

theorem loadFile_pushes_snapshot_witness:
  "reachable example_parser st_loaded
   \<and> statusMessage (loadFile example_parser file_b st_loaded) = Some ''File loaded successfully''
   \<and> history (loadFile example_parser file_b st_loaded) = history st_loaded @ [[''b'']]
   \<and> length (history (loadFile example_parser file_b st_loaded)) \<noteq> 1
   \<and> statusMessage (loadFile example_parser file_a st_loaded) = Some ''File loaded successfully''
   \<and> history st_loaded = [regions (loadFile example_parser file_a st_loaded)]
   \<and> length (history (loadFile example_parser file_a st_loaded)) = 1
   \<and> reachable example_parser constructor
   \<and> history constructor = []
   \<and> statusMessage (loadFile example_parser file_a constructor) = Some ''File loaded successfully''
   \<and> history (loadFile example_parser file_a constructor) = [[''a'']]
   \<and> historyIndex (loadFile example_parser file_a constructor) = 0"
proof -
  have a: "statusMessage (loadFile example_parser file_b st_loaded) = Some ''File loaded successfully''"
    "regions (loadFile example_parser file_b st_loaded) = [''b'']"
    using st_reloaded_eq by (simp_all add: st_reloaded_def)
  have b: "statusMessage (loadFile example_parser file_a constructor) = Some ''File loaded successfully''"
    "regions (loadFile example_parser file_a constructor) = [''a'']"
    using st_loaded_eq by (simp_all add: st_loaded_def)
  have c: "history constructor = []" "historyIndex constructor = -1"
    by (simp_all add: constructor_def updateButtonStates_def)
  have d: "history st_loaded = [[''a'']]" "historyIndex st_loaded = 0"
    by (simp_all add: st_loaded_eq)
  have e: "statusMessage (loadFile example_parser file_a st_loaded) = Some ''File loaded successfully''"
    "regions (loadFile example_parser file_a st_loaded) = [''a'']"
    using st_same_eq by (simp_all add: st_same_def st_loaded_eq)
  from loadFile_pushes_snapshot [OF reachable_st_loaded a(1)]
    loadFile_pushes_snapshot [OF reachable_st_loaded e(1)]
    loadFile_pushes_snapshot [OF r_init b(1)] reachable_st_loaded r_init [of example_parser] a b c d e
  show ?thesis by (simp add: js_index_def)
qed

text \<open>
  C3, as the claim states it, fails where the parser throws: the \<^verbatim>\<open>catch\<close> of
  \<^verbatim>\<open>loadFile\<close> reports the error in the status message and returns before \<^verbatim>\<open>render\<close>, so
  the document loaded before stays on the page and no placeholder is shown.
\<close>

theorem loadFile_parser_throws_no_placeholder:
  "example_parse (ftext file_bad) = Throws
   \<and> container st_failed = Blocks [Block 1 ''1 '' ''Intro'' ''a'' ''Intro content'' []]
   \<and> container st_failed \<noteq> NoSections
   \<and> nodes st_failed = Some [Node 1 ''Intro'' ''a'' []]
   \<and> statusMessage st_failed = Some ''Error loading file. Please check console for details.''"
  by (simp add: st_failed_def st_loaded_eq loadFile_def file_bad_def example_parser_def
      example_parse_def endsWith_def showStatus_def)

text \<open>
  C3, amended. For a file that passes the type check and the size check: when the
  parser is absent, \<^verbatim>\<open>loadFile\<close> sets the tree to the empty tree, shows the "No Sections
  Found" placeholder with no content region, and reports success; when the parser
  throws, the error goes no further than \<^verbatim>\<open>loadFile\<close>, which changes nothing but the
  status message, which then reads "Error loading file. Please check console for
  details.".
\<close>

theorem loadFile_parser_absent_or_throws:
  assumes "js_includes (ftype f) ''text/'' \<or> endsWith (fname f) ''.tex''"
    and "length (ftext f) \<le> 1000000"
  shows "nodes (loadFile None f s) = Some []
     \<and> container (loadFile None f s) = NoSections
     \<and> regions (loadFile None f s) = []
     \<and> statusMessage (loadFile None f s) = Some ''File loaded successfully''
     \<and> (parse (ftext f) = Throws \<longrightarrow>
          loadFile (Some parse) f s
            = showStatus ''Error loading file. Please check console for details.'' s)"
  using assms
  by (auto simp: loadFile_def render_def showStatus_def pushHistory_def Let_def
      updateButtonStates_def)

theorem loadFile_parser_absent_or_throws_witness:
  "(js_includes (ftype file_bad) ''text/'' \<or> endsWith (fname file_bad) ''.tex'')
   \<and> length (ftext file_bad) \<le> 1000000
   \<and> container (loadFile None file_bad st_loaded) = NoSections
   \<and> regions (loadFile None file_bad st_loaded) = []
   \<and> example_parse (ftext file_bad) = Throws
   \<and> loadFile (Some example_parse) file_bad st_loaded
       = showStatus ''Error loading file. Please check console for details.'' st_loaded"
proof -
  have a: "js_includes (ftype file_bad) ''text/'' \<or> endsWith (fname file_bad) ''.tex''"
    by (simp add: file_bad_def)
  have b: "length (ftext file_bad) \<le> 1000000" by (simp add: file_bad_def)
  have c: "example_parse (ftext file_bad) = Throws" by (simp add: file_bad_def example_parse_def)
  from loadFile_parser_absent_or_throws [OF a b, of st_loaded example_parse] a b c
  show ?thesis by simp
qed

section \<open>Edits, undo and the debounce timer\<close>

lemma edit_reachable: "reachable p s \<Longrightarrow> reachable p (edit i v s)"
proof -
  assume r: "reachable p s"
  have r1: "reachable p (elapse 500 (input i v s))"
    by (intro r_elapse r_input r)
  show ?thesis
    unfolding edit_def Let_def using r1
    by (auto split: option.splits intro: r_fire)
qed

lemma edit_eq:
  assumes "reachable p s" and "i < length (regions s)"
  shows "edit i v s =
     pushHistory (s\<lparr>regions := (regions s)[i := v], debounceTimer := Some (nextTimer s),
       nextTimer := nextTimer s + 1, clock := clock s + 500, timers := []\<rparr>)"
proof -
  from assms(1) have t: "timer_inv s" by (rule reachable_timer_inv)
  have "clearTimeout (debounceTimer s) (s\<lparr>regions := (regions s)[i := v]\<rparr>)
      = s\<lparr>regions := (regions s)[i := v], timers := []\<rparr>"
    using t by (auto simp: timer_inv_def clearTimeout_def split: list.splits option.splits)
  then have "elapse 500 (input i v s) =
      s\<lparr>regions := (regions s)[i := v], debounceTimer := Some (nextTimer s),
        timers := [(nextTimer s, clock s + 500)], nextTimer := nextTimer s + 1,
        clock := clock s + 500\<rparr>"
    using assms(2) by (simp add: input_def elapse_def setTimeout_def)
  then show ?thesis
    by (simp add: edit_def fire_def)
qed

lemma edit_history:
  assumes "reachable p s" and "i < length (regions s)"
    and "js_index (history s) (historyIndex s) \<noteq> Some ((regions s)[i := v])"
  shows "history (edit i v s) = take (nat (historyIndex s + 1)) (history s) @ [(regions s)[i := v]]"
    and "historyIndex (edit i v s) = historyIndex s + 1"
    and "regions (edit i v s) = (regions s)[i := v]"
proof -
  from assms(1) have h: "hist_inv s" by (rule reachable_hist_inv)
  let ?s = "s\<lparr>regions := (regions s)[i := v], debounceTimer := Some (nextTimer s),
       nextTimer := nextTimer s + 1, clock := clock s + 500, timers := []\<rparr>"
  have e: "edit i v s = pushHistory ?s" using assms(1,2) by (rule edit_eq)
  have hs: "hist_inv ?s" using h by (simp add: hist_inv_def)
  from pushHistory_history [OF hs] assms(3)
  show "history (edit i v s) = take (nat (historyIndex s + 1)) (history s) @ [(regions s)[i := v]]"
    and "historyIndex (edit i v s) = historyIndex s + 1"
    by (simp_all add: e)
  from pushHistory_cursor_entry [OF hs]
  show "regions (edit i v s) = (regions s)[i := v]" by (simp add: e)
qed

lemma edits_history:
  "reachable p s \<Longrightarrow> historyIndex s = int (length (history s)) - 1 \<Longrightarrow> distinct_edits es s \<Longrightarrow>
   reachable p (edits es s)
   \<and> length (history (edits es s)) = length (history s) + length es
   \<and> historyIndex (edits es s) = int (length (history s) + length es) - 1"
proof (induction es arbitrary: s)
  case Nil
  then show ?case by simp
next
  case (Cons e es)
  obtain i v where e: "e = (i, v)" by (cases e)
  from Cons.prems(3) e have i: "i < length (regions s)"
    and d: "js_index (history s) (historyIndex s) \<noteq> Some ((regions s)[i := v])"
    and rest: "distinct_edits es (edit i v s)"
    by simp_all
  have r: "reachable p (edit i v s)" using Cons.prems(1) by (rule edit_reachable)
  from Cons.prems(1) have h: "hist_inv s" by (rule reachable_hist_inv)
  have len: "length (history (edit i v s)) = length (history s) + 1"
    using edit_history(1) [OF Cons.prems(1) i d] Cons.prems(2) by simp
  have idx: "historyIndex (edit i v s) = int (length (history (edit i v s))) - 1"
    using edit_history(2) [OF Cons.prems(1) i d] Cons.prems(2) len by simp
  from Cons.IH [OF r idx rest] len e show ?case by simp
qed

lemma undos_history:
  "reachable p s \<Longrightarrow> int k \<le> historyIndex s \<Longrightarrow>
   \<exists>s'. undos k s = Inr s' \<and> reachable p s' \<and> history s' = history s
        \<and> historyIndex s' = historyIndex s - int k"
proof (induction k arbitrary: s)
  case 0
  then show ?case by simp
next
  case (Suc k)
  from Suc.prems(1) have h: "hist_inv s" by (rule reachable_hist_inv)
  from Suc.prems(2) have pos: "0 < historyIndex s" by simp
  let ?s1 = "showStatus ''Undo successful'' (updateButtonStates
      (s\<lparr>historyIndex := historyIndex s - 1,
         regions := restored (history s ! nat (historyIndex s - 1)) (length (regions s))\<rparr>))"
  have u: "undo s = Inr ?s1" using undo_step [OF h pos] .
  have r1: "reachable p ?s1" using Suc.prems(1) u by (rule r_undo)
  have f: "history ?s1 = history s" "historyIndex ?s1 = historyIndex s - 1"
    by (simp_all add: showStatus_def updateButtonStates_def)
  from Suc.prems(2) have "int k \<le> historyIndex ?s1" by (simp add: f)
  from Suc.IH [OF r1 this] obtain s' where
    "undos k ?s1 = Inr s'" "reachable p s'" "history s' = history ?s1"
    "historyIndex s' = historyIndex ?s1 - int k"
    by blast
  then show ?case using u by (simp add: f)
qed

lemma first_load:
  assumes "statusMessage (loadFile p f constructor) = Some ''File loaded successfully''"
  shows "length (history (loadFile p f constructor)) = 1"
    and "historyIndex (loadFile p f constructor) = 0"
proof -
  have c: "history constructor = []" by (simp add: constructor_def updateButtonStates_def)
  from loadFile_history [OF constructor_inv assms] c
  have "history (loadFile p f constructor) = [regions (loadFile p f constructor)]
      \<and> historyIndex (loadFile p f constructor) = 0"
    by blast
  then show "length (history (loadFile p f constructor)) = 1"
    and "historyIndex (loadFile p f constructor) = 0"
    by simp_all
qed

lemma edit_st_loaded: "edit 0 ''b'' st_loaded = st_edited"
  using fire_st_typed by (simp add: edit_def st_typed_def [symmetric]) (simp add: st_typed_eq)

lemma edit_st_undone_history: "history (edit 0 ''c'' st_undone) = [[''a''], [''c'']]"
  by (simp add: edit_def st_undone_def st_edited_eq input_def elapse_def setTimeout_def
      clearTimeout_def fire_def pushHistory_def Let_def js_index_def js_slice0_def
      updateButtonStates_def)

lemma undos_st_edited: "undos 1 st_edited = Inr st_undone"
  using undo_st_edited by simp

lemma distinct_edits_b: "distinct_edits [(0, ''b'')] st_loaded"
  by (simp add: st_loaded_eq js_index_def)

lemma distinct_edits_c: "distinct_edits [(0, ''c'')] st_undone"
  by (simp add: st_undone_def st_edited_eq js_index_def)

lemma st_two_fields:
  "regions st_two = [''a'', ''a'']" "history st_two = [[''a'', ''a'']]" "historyIndex st_two = 0"
  "nextTimer st_two = 0" "clock st_two = 0"
  by (simp_all add: st_two_def loadFile_def file_a_def two_parse_def endsWith_def
      constructor_def updateButtonStates_def render_def pushHistory_def Let_def
      showStatus_def js_index_def js_slice0_def)

lemma reachable_st_two: "reachable (Some two_parse) st_two"
  unfolding st_two_def by (intro r_load r_init)

lemma input_eq:
  assumes "timer_inv s" and "i < length (regions s)"
  shows "input i v s =
     s\<lparr>regions := (regions s)[i := v], debounceTimer := Some (nextTimer s),
       nextTimer := nextTimer s + 1, timers := [(nextTimer s, clock s + 500)]\<rparr>"
proof -
  have "clearTimeout (debounceTimer s) (s\<lparr>regions := (regions s)[i := v]\<rparr>)
      = s\<lparr>regions := (regions s)[i := v], timers := []\<rparr>"
    using assms(1) by (auto simp: timer_inv_def clearTimeout_def split: list.splits option.splits)
  then show ?thesis using assms(2) by (simp add: input_def setTimeout_def)
qed

lemma elapse_fields:
  "timers (elapse e s) = timers s" "clock (elapse e s) = clock s + e"
  "history (elapse e s) = history s" "historyIndex (elapse e s) = historyIndex s"
  "regions (elapse e s) = regions s"
  by (simp_all add: elapse_def)

lemma fire_single:
  "timers s = [(t, due)] \<Longrightarrow>
   fire t' s = (if t' = t \<and> due \<le> clock s then Some (pushHistory (s\<lparr>timers := []\<rparr>)) else None)"
  by (simp add: fire_def)

text \<open>
  C4, as the claim states it, fails: the log of a freshly loaded document already holds
  the snapshot of the load. With N = 1 edit, k = 1 undo and one new edit the log has
  2 entries (the load and the new edit), not (N - k) + 1 = 1.
\<close>

theorem edit_after_undo_length_counterexample:
  "statusMessage st_loaded = Some ''File loaded successfully''
   \<and> distinct_edits [(0, ''b'')] st_loaded
   \<and> edits [(0, ''b'')] st_loaded = st_edited
   \<and> undos 1 st_edited = Inr st_undone
   \<and> distinct_edits [(0, ''c'')] st_undone
   \<and> history (edit 0 ''c'' st_undone) = [[''a''], [''c'']]
   \<and> length (history (edit 0 ''c'' st_undone)) \<noteq> (length [(0::nat, ''b'')] - 1) + 1"
  using distinct_edits_b distinct_edits_c undos_st_edited
  by (simp add: edit_st_loaded edit_st_undone_history) (simp add: st_loaded_eq)

text \<open>
  C4, amended. After the first successful load, N distinct edits, k calls of \<^verbatim>\<open>undo\<close>
  with k at most N (all of which return) and one more distinct edit, the log holds
  (N - k) + 2 entries: the first (N - k) + 1 entries of the log as it was before the
  undos (the snapshot of the load and those of the first N - k edits) and the snapshot
  of the new edit, at which the cursor points. Every entry behind the cursor is gone,
  and \<^verbatim>\<open>redo\<close> returns the state as it is. Before the undos the log holds N + 1 entries.
\<close>

theorem edit_after_undo_truncates:
  assumes "statusMessage (loadFile p f constructor) = Some ''File loaded successfully''"
    and "distinct_edits es (loadFile p f constructor)"
    and "k \<le> length es"
  shows "length (history (edits es (loadFile p f constructor))) = length es + 1
    \<and> (\<exists>s2. undos k (edits es (loadFile p f constructor)) = Inr s2
         \<and> (\<forall>i v. distinct_edits [(i, v)] s2 \<longrightarrow>
               length (history (edit i v s2)) = (length es - k) + 2
               \<and> history (edit i v s2)
                   = take (length es - k + 1) (history (edits es (loadFile p f constructor)))
                     @ [regions (edit i v s2)]
               \<and> historyIndex (edit i v s2) = int (length es - k) + 1
               \<and> redo (edit i v s2) = Inr (edit i v s2)))"
proof -
  let ?s0 = "loadFile p f constructor"
  let ?s1 = "edits es ?s0"
  have r0: "reachable p ?s0" by (intro r_load r_init)
  have l0: "length (history ?s0) = 1" "historyIndex ?s0 = 0"
    using first_load [OF assms(1)] by simp_all
  then have "historyIndex ?s0 = int (length (history ?s0)) - 1" by simp
  from edits_history [OF r0 this assms(2)] l0
  have r1: "reachable p ?s1" and l1: "length (history ?s1) = length es + 1"
    and i1: "historyIndex ?s1 = int (length es)"
    by simp_all
  from assms(3) i1 have "int k \<le> historyIndex ?s1" by simp
  from undos_history [OF r1 this] obtain s2 where
    u: "undos k ?s1 = Inr s2" and r2: "reachable p s2" and h2: "history s2 = history ?s1"
    and i2: "historyIndex s2 = historyIndex ?s1 - int k"
    by blast
  have i2': "historyIndex s2 = int (length es - k)" using i2 i1 assms(3) by simp
  have step: "length (history (edit i v s2)) = (length es - k) + 2
               \<and> history (edit i v s2) = take (length es - k + 1) (history ?s1) @ [regions (edit i v s2)]
               \<and> historyIndex (edit i v s2) = int (length es - k) + 1
               \<and> redo (edit i v s2) = Inr (edit i v s2)"
    if d: "distinct_edits [(i, v)] s2" for i v
  proof -
    from d have i: "i < length (regions s2)"
      and n: "js_index (history s2) (historyIndex s2) \<noteq> Some ((regions s2)[i := v])"
      by simp_all
    note eh = edit_history [OF r2 i n]
    have n1: "nat (historyIndex s2 + 1) = length es - k + 1" using i2' by simp
    have a: "history (edit i v s2) = take (length es - k + 1) (history ?s1) @ [regions (edit i v s2)]"
      using eh(1) eh(3) by (simp add: n1 h2)
    have b: "length (history (edit i v s2)) = (length es - k) + 2"
      using a l1 assms(3) by simp
    have c: "historyIndex (edit i v s2) = int (length es - k) + 1"
      using eh(2) i2' by simp
    have "redo (edit i v s2) = Inr (edit i v s2)"
      using b c by (simp add: redo_def)
    with a b c show ?thesis by simp
  qed
  from l1 u step show ?thesis by blast
qed

theorem edit_after_undo_truncates_witness:
  "statusMessage (loadFile example_parser file_a constructor) = Some ''File loaded successfully''
   \<and> distinct_edits [(0, ''b'')] (loadFile example_parser file_a constructor)
   \<and> (1::nat) \<le> length [(0::nat, ''b'')]
   \<and> length (history (edits [(0, ''b'')] (loadFile example_parser file_a constructor))) = 2
   \<and> undos 1 (edits [(0, ''b'')] (loadFile example_parser file_a constructor)) = Inr st_undone
   \<and> distinct_edits [(0, ''c'')] st_undone
   \<and> length (history (edit 0 ''c'' st_undone)) = 2
   \<and> historyIndex (edit 0 ''c'' st_undone) = 1
   \<and> redo (edit 0 ''c'' st_undone) = Inr (edit 0 ''c'' st_undone)"
proof -
  have a: "statusMessage (loadFile example_parser file_a constructor) = Some ''File loaded successfully''"
    using st_loaded_eq by (simp add: st_loaded_def)
  have b: "distinct_edits [(0, ''b'')] (loadFile example_parser file_a constructor)"
    using distinct_edits_b by (simp only: st_loaded_def)
  have c: "(1::nat) \<le> length [(0::nat, ''b'')]" by simp
  have u: "undos 1 (edits [(0, ''b'')] (loadFile example_parser file_a constructor)) = Inr st_undone"
    using undos_st_edited edit_st_loaded by (simp add: st_loaded_def)
  from edit_after_undo_truncates [OF a b c] u
  have l: "length (history (edits [(0, ''b'')] (loadFile example_parser file_a constructor))) = 2"
    and "distinct_edits [(0, ''c'')] st_undone \<longrightarrow>
      length (history (edit 0 ''c'' st_undone)) = 2
      \<and> historyIndex (edit 0 ''c'' st_undone) = 1
      \<and> redo (edit 0 ''c'' st_undone) = Inr (edit 0 ''c'' st_undone)"
    by auto
  with a b c u distinct_edits_c show ?thesis by simp
qed

text \<open>
  C10. In every state the editor can be in, when the user types in region i and, less
  than 500 ms later, in region j (the same region or another): the first input leaves
  one pending timeout, which cannot fire before the second input; after the second
  input exactly one timeout is pending, the one the second input has set, due 500 ms
  after it, and the history is as it was before the first input. The only timeout that
  can ever fire then is that one, not before its 500 ms have passed, and its push makes
  the content with both edits the entry at the cursor, adding at most one entry to the
  log. Time is a clock in milliseconds; a timeout may fire at any time from its due
  time on.
\<close>

theorem debounce_shared_across_regions:
  assumes "reachable p s" and "i < length (regions s)" and "j < length (regions s)"
    and "d < 500"
  shows "timers (input i a s) = [(nextTimer s, clock s + 500)]
     \<and> fire (nextTimer s) (elapse d (input i a s)) = None
     \<and> timers (typed_twice i a d j b s) = [(nextTimer s + 1, clock s + d + 500)]
     \<and> regions (typed_twice i a d j b s) = (regions s)[i := a, j := b]
     \<and> history (typed_twice i a d j b s) = history s
     \<and> historyIndex (typed_twice i a d j b s) = historyIndex s
     \<and> (\<forall>t e. fire t (elapse e (typed_twice i a d j b s)) =
           (if t = nextTimer s + 1 \<and> 500 \<le> e
            then Some (pushHistory ((elapse e (typed_twice i a d j b s))\<lparr>timers := []\<rparr>))
            else None))
     \<and> (\<forall>e. js_index
               (history (pushHistory ((elapse e (typed_twice i a d j b s))\<lparr>timers := []\<rparr>)))
               (historyIndex (pushHistory ((elapse e (typed_twice i a d j b s))\<lparr>timers := []\<rparr>)))
             = Some ((regions s)[i := a, j := b])
           \<and> length (history (pushHistory ((elapse e (typed_twice i a d j b s))\<lparr>timers := []\<rparr>)))
             \<le> length (history s) + 1)"
proof -
  from assms(1) have t: "timer_inv s" and h: "hist_inv s"
    by (rule reachable_timer_inv, rule reachable_hist_inv)
  let ?s1 = "input i a s"
  let ?s2 = "elapse d ?s1"
  let ?s3 = "input j b ?s2"
  have s1: "?s1 = s\<lparr>regions := (regions s)[i := a], debounceTimer := Some (nextTimer s),
       nextTimer := nextTimer s + 1, timers := [(nextTimer s, clock s + 500)]\<rparr>"
    using t assms(2) by (rule input_eq)
  have c1: "timers ?s1 = [(nextTimer s, clock s + 500)]" by (simp add: s1)
  have t2: "timers ?s2 = [(nextTimer s, clock s + 500)]" "clock ?s2 = clock s + d"
    "regions ?s2 = (regions s)[i := a]" "nextTimer ?s2 = nextTimer s + 1"
    "history ?s2 = history s" "historyIndex ?s2 = historyIndex s"
    by (simp_all add: s1 elapse_def)
  have c2: "fire (nextTimer s) ?s2 = None"
    using assms(4) by (simp add: fire_single [OF t2(1)] t2(2))
  have r2: "reachable p ?s2" by (intro r_elapse r_input assms(1))
  then have ti2: "timer_inv ?s2" by (rule reachable_timer_inv)
  have j2: "j < length (regions ?s2)" using assms(3) by (simp add: t2)
  have s3: "?s3 = ?s2\<lparr>regions := (regions ?s2)[j := b], debounceTimer := Some (nextTimer ?s2),
       nextTimer := nextTimer ?s2 + 1, timers := [(nextTimer ?s2, clock ?s2 + 500)]\<rparr>"
    using ti2 j2 by (rule input_eq)
  have t3: "timers ?s3 = [(nextTimer s + 1, clock s + d + 500)]"
    "regions ?s3 = (regions s)[i := a, j := b]"
    "history ?s3 = history s" "historyIndex ?s3 = historyIndex s" "clock ?s3 = clock s + d"
    by (simp_all add: s3 t2 del: One_nat_def)
  have te: "timers (elapse e ?s3) = [(nextTimer s + 1, clock s + d + 500)]"
    "clock (elapse e ?s3) = clock s + d + e" for e
    by (simp_all add: elapse_fields t3)
  have c3: "fire t' (elapse e ?s3) =
           (if t' = nextTimer s + 1 \<and> 500 \<le> e
            then Some (pushHistory ((elapse e ?s3)\<lparr>timers := []\<rparr>))
            else None)" for t' e
    by (simp add: fire_single [OF te(1)] te(2))
  have c4: "js_index (history (pushHistory ((elapse e ?s3)\<lparr>timers := []\<rparr>)))
               (historyIndex (pushHistory ((elapse e ?s3)\<lparr>timers := []\<rparr>)))
             = Some ((regions s)[i := a, j := b])
           \<and> length (history (pushHistory ((elapse e ?s3)\<lparr>timers := []\<rparr>)))
             \<le> length (history s) + 1" for e
  proof -
    let ?s4 = "(elapse e ?s3)\<lparr>timers := []\<rparr>"
    have f: "history ?s4 = history s" "historyIndex ?s4 = historyIndex s"
      "regions ?s4 = (regions s)[i := a, j := b]"
      by (simp_all add: elapse_fields t3)
    have h4: "hist_inv ?s4" using h by (simp add: hist_inv_def f)
    from pushHistory_cursor_entry [OF h4] pushHistory_history [OF h4]
    show ?thesis by (auto simp: f)
  qed
  from c1 c2 t3 c3 c4 show ?thesis by blast
qed

theorem debounce_shared_across_regions_witness:
  "reachable (Some two_parse) st_two
   \<and> 0 < length (regions st_two) \<and> Suc 0 < length (regions st_two) \<and> (100::nat) < 500
   \<and> timers (input 0 ''x'' st_two) = [(0, 500)]
   \<and> fire 0 (elapse 100 (input 0 ''x'' st_two)) = None
   \<and> timers (typed_twice 0 ''x'' 100 (Suc 0) ''y'' st_two) = [(Suc 0, 600)]
   \<and> regions (typed_twice 0 ''x'' 100 (Suc 0) ''y'' st_two) = [''x'', ''y'']
   \<and> history (typed_twice 0 ''x'' 100 (Suc 0) ''y'' st_two) = [[''a'', ''a'']]
   \<and> fire 0 (elapse 500 (typed_twice 0 ''x'' 100 (Suc 0) ''y'' st_two)) = None
   \<and> fire (Suc 0) (elapse 499 (typed_twice 0 ''x'' 100 (Suc 0) ''y'' st_two)) = None
   \<and> (\<exists>s4. fire (Suc 0) (elapse 500 (typed_twice 0 ''x'' 100 (Suc 0) ''y'' st_two)) = Some s4
         \<and> js_index (history s4) (historyIndex s4) = Some [''x'', ''y'']
         \<and> length (history s4) \<le> 2)"
proof -
  have a: "0 < length (regions st_two)" "Suc 0 < length (regions st_two)" "(100::nat) < 500"
    by (simp_all add: st_two_fields)
  from debounce_shared_across_regions [OF reachable_st_two a, of "''x''" "''y''"]
    reachable_st_two a
  show ?thesis by (auto simp: st_two_fields numeral_2_eq_2)
qed

end
